theory Spec2Isabelle
  imports Main "HOL-Library.Finite_Map" "HOL-Library.AList" "HOL-Library.List_Lexorder"
    "HOL-Library.Char_ord"
begin

section \<open>Addresses: gNMI paths and path specifications (ygot/diff.go)\<close>

text \<open>
  A gNMI path element is a name with a key map (Go \<^verbatim>\<open>map[string]string\<close>); a finite map
  identifies the nil and the empty Go map, as \<^verbatim>\<open>proto.Equal\<close> does. A gNMI path is
  modelled by its \<^verbatim>\<open>Elem\<close> field, the only one the code under study populates, and
  \<^verbatim>\<open>proto.Equal\<close> on paths is equality of that model.

  A Go slice that the code compares with nil is an \<open>option\<close> of a list, \<open>None\<close> being the
  nil slice; \<open>rangeOf\<close> gives the elements a \<^verbatim>\<open>for ... range\<close> loop visits.
\<close>

record PathElem =
  Name :: string
  Key :: "(string, string) fmap"

record Path =
  Elem :: "PathElem list"

record pathSpec =
  gNMIPaths :: "Path list option"

fun rangeOf :: "'a list option \<Rightarrow> 'a list" where
  "rangeOf None = []"
| "rangeOf (Some xs) = xs"

fun len :: "'a list option \<Rightarrow> nat" where
  "len s = length (rangeOf s)"

text \<open>The inner loop of \<^verbatim>\<open>pathSpec.Equal\<close>: is \<open>path\<close> matched by some path of the other side.\<close>

fun foundIn :: "Path \<Rightarrow> Path list \<Rightarrow> bool" where
  "foundIn path [] = False"
| "foundIn path (otherPath # rest) = (if path = otherPath then True else foundIn path rest)"

text \<open>The outer loop: return false at the first path of \<open>p\<close> that is not found.\<close>

fun allFound :: "Path list \<Rightarrow> Path list \<Rightarrow> bool" where
  "allFound [] others = True"
| "allFound (path # rest) others = (if \<not> foundIn path others then False else allFound rest others)"

definition pathSpec_Equal :: "pathSpec option \<Rightarrow> pathSpec option \<Rightarrow> bool" where
  "pathSpec_Equal p o' =
     (case (p, o') of
        (Some sp, Some so) \<Rightarrow> allFound (rangeOf (gNMIPaths sp)) (rangeOf (gNMIPaths so))
      | _ \<Rightarrow> p = o')"

section \<open>Leafref path resolution (ygen/schematree.go)\<close>

text \<open>
  Strings are lists of characters, the bytes of the Go string. The characters that the code
  tests are ASCII, so for a string that is valid UTF-8 ranging over its bytes and ranging
  over its code points give the same parts. \<open>splitOn\<close> is \<^verbatim>\<open>strings.Split\<close> for a
  separator of one character: the empty string splits into one empty part.
\<close>

datatype ygen_error =
    MultipleNamespaceSpecifiers string
  | PathMustBeginWithDotDotOrSlash string
  | CallingNodeMustBeSpecified "string list"
  | InvalidCallingNodeWasModule string
  | RecurseAboveRoot string
  | IndexOutOfRange

fun splitOn :: "char \<Rightarrow> string \<Rightarrow> string list" where
  "splitOn sep [] = [[]]"
| "splitOn sep (c # cs) =
     (if c = sep then [] # splitOn sep cs
      else (case splitOn sep cs of
              [] \<Rightarrow> [[c]]
            | w # ws \<Rightarrow> (c # w) # ws))"

text \<open>
  The loop of \<^verbatim>\<open>splitXPATHParts\<close> over the characters of the path, with its three
  variables: the parts found so far, the buffer and the \<^verbatim>\<open>inKey\<close> flag. A \<^verbatim>\<open>/\<close> inside a key
  leaves the switch and is then dropped by the \<^verbatim>\<open>!inKey\<close> test, as every other character of
  a key is.
\<close>

fun splitXPATHLoop :: "string list \<Rightarrow> string \<Rightarrow> bool \<Rightarrow> string \<Rightarrow> string list \<times> string" where
  "splitXPATHLoop parts buf inKey [] = (parts, buf)"
| "splitXPATHLoop parts buf inKey (c # cs) =
     (if c = CHR ''/'' \<and> \<not> inKey then splitXPATHLoop (parts @ [buf]) [] inKey cs
      else if c = CHR ''['' then splitXPATHLoop parts buf True cs
      else if c = CHR '']'' then splitXPATHLoop parts buf False cs
      else splitXPATHLoop parts (if \<not> inKey then buf @ [c] else buf) inKey cs)"

definition splitXPATHParts :: "string \<Rightarrow> string list" where
  "splitXPATHParts path =
     (case splitXPATHLoop [] [] False path of
        (parts, buf) \<Rightarrow> if length buf \<noteq> 0 then parts @ [buf] else parts)"

fun removeXPATHNamespaces :: "string list \<Rightarrow> ygen_error + string list" where
  "removeXPATHNamespaces [] = Inr []"
| "removeXPATHNamespaces (p # path) =
     (if CHR '':'' \<in> set p then
        (let sp = splitOn CHR '':'' p in
         if length sp \<noteq> 2 then Inl (MultipleNamespaceSpecifiers p)
         else (case removeXPATHNamespaces path of
                 Inl e \<Rightarrow> Inl e
               | Inr fixedParts \<Rightarrow> Inr (sp ! 1 # fixedParts)))
      else (case removeXPATHNamespaces path of
              Inl e \<Rightarrow> Inl e
            | Inr fixedParts \<Rightarrow> Inr (p # fixedParts)))"

text \<open>
  The loop of \<^verbatim>\<open>fixSchemaTreePath\<close> over the parts of a relative path: every \<^verbatim>\<open>..\<close> removes
  the last element of \<open>callerPath\<close>, every other part is appended to \<open>remainingPath\<close>.
\<close>

fun relativeLoop :: "string \<Rightarrow> string list \<Rightarrow> string list \<Rightarrow> string list
    \<Rightarrow> ygen_error + string list" where
  "relativeLoop path callerPath remainingPath [] = Inr (callerPath @ remainingPath)"
| "relativeLoop path callerPath remainingPath (p # parts) =
     (if p = ''..'' then
        (if length callerPath = 0 then Inl (RecurseAboveRoot path)
         else relativeLoop path (butlast callerPath) remainingPath parts)
      else relativeLoop path callerPath (remainingPath @ [p]) parts)"

text \<open>
  \<^verbatim>\<open>util.SchemaTreePath\<close> is defined outside the files verified here: it is the
  parameter \<open>SchemaTreePath\<close>, from schema entries to their path string. The caller is \<open>None\<close> for a nil
  entry. Indexing the empty slice of parts panics in Go; the model returns
  \<open>IndexOutOfRange\<close> there.
\<close>

definition fixSchemaTreePath :: "('e \<Rightarrow> string) \<Rightarrow> string \<Rightarrow> 'e option \<Rightarrow> ygen_error + string list" where
  "fixSchemaTreePath SchemaTreePath path caller =
     (case removeXPATHNamespaces (splitXPATHParts path) of
        Inl err \<Rightarrow> Inl err
      | Inr parts \<Rightarrow>
          (case parts of
             [] \<Rightarrow> Inl IndexOutOfRange
           | p0 # rest \<Rightarrow>
               if p0 \<noteq> ''..'' then
                 (if p0 = [] then Inr rest
                  else Inl (PathMustBeginWithDotDotOrSlash path))
               else
                 (case caller of
                    None \<Rightarrow> Inl (CallingNodeMustBeSpecified parts)
                  | Some c \<Rightarrow>
                      (let cpathparts = splitOn CHR ''/'' (SchemaTreePath c) in
                       if length cpathparts < 2 then Inl (InvalidCallingNodeWasModule path)
                       else relativeLoop path (drop 2 cpathparts) [] parts))))"

text \<open>
  The resolution of a relative path as the specification words it: walk up one segment per
  leading \<^verbatim>\<open>..\<close> token, then append the remaining tokens.
\<close>

definition spec_relativePath :: "string list \<Rightarrow> string list \<Rightarrow> string list option" where
  "spec_relativePath callerPath parts =
     (let up = length (takeWhile (\<lambda>p. p = ''..'') parts) in
      if length callerPath < up then None
      else Some (take (length callerPath - up) callerPath @ dropWhile (\<lambda>p. p = ''..'') parts))"

section \<open>Path algebra (ygot/diff.go)\<close>

datatype ygot_error =
    ListKeyMapFailed string
  | CannotConvertKeys string
  | InvalidListMemberNoParent
  | NoAnnotationForCompletePath
  | NoPathSpecAnnotation
  | ElemIndexOutOfRange
  | SchemaPathsFailed string
  | InvalidSchemaPath string
  | PathToStringFailed string
  | ForEachDataFieldErrors "ygot_error list"
  | DifferentTypes string string
  | OriginalLeaves ygot_error
  | ModifiedLeaves ygot_error
  | ConvertLeafPathMap ygot_error
  | CannotRepresentValue string string

definition schemaPathTogNMIPath :: "string list \<Rightarrow> Path" where
  "schemaPathTogNMIPath spath = \<lparr>Elem = map (\<lambda>pe. \<lparr>Name = pe, Key = fmempty\<rparr>) spath\<rparr>"

definition joingNMIPaths :: "Path \<Rightarrow> Path \<Rightarrow> Path" where
  "joingNMIPaths parent child = parent\<lparr>Elem := Elem parent @ Elem child\<rparr>"

text \<open>
  The generated data model and the helpers of the other packages are defined outside the
  files verified here. They are the fields of an environment: the dynamic type of a GoStruct, the sequence
  of nodes that \<^verbatim>\<open>util.ForEachDataField\<close> hands to its iterator function, the key map of a
  list entry (\<^verbatim>\<open>\<Lambda>ListKeyMap\<close>) and its conversion to strings, the string form of a path and
  the encoding of a leaf value. Their errors are messages.
\<close>

record StructField =
  fieldName :: string
  IsYgotAnnotation :: bool
  ShadowSchemaPaths :: "string list list"
  SchemaPaths :: "string + string list list"

text \<open>
  A field value is seen through the predicates of package util, its \<^verbatim>\<open>Interface()\<close>, the
  list entry it holds when that implements \<^verbatim>\<open>KeyHelperGoStruct\<close>, and its integer when
  it is a \<^verbatim>\<open>GoEnum\<close> (unwrapped from a union interface where needed).
\<close>

record ('l, 'v) FieldValue =
  IsNilOrInvalidValue :: bool
  IsValueNilOrDefault :: bool
  IsValueStructPtr :: bool
  IsValueMap :: bool
  KeyHelperGoStruct :: "'l option"
  Interface :: 'v
  GoEnum :: "int option"

text \<open>
  A \<^verbatim>\<open>util.NodeInfo\<close> is a heap object: \<open>nid\<close> is its address and \<open>Parent\<close> the address of its
  parent, \<open>None\<close> for nil. The annotations that the walk writes into these objects are kept in
  a store from addresses to annotation slices, \<open>None\<close> for the nil slice. \<open>StructField\<close> is
  \<open>None\<close> for the zero \<^verbatim>\<open>reflect.StructField\<close>.
\<close>

record ('l, 'v) NodeInfo =
  nid :: nat
  Parent :: "nat option"
  StructField :: "StructField option"
  FieldValue :: "('l, 'v) FieldValue"

datatype annotation = PathSpecAnn "pathSpec option" | OtherAnn

type_synonym annotations = "nat \<Rightarrow> annotation list option"

text \<open>
  Two more fields belong to the Go runtime. \<^verbatim>\<open>reflect.DeepEqual\<close> on two leaf values is the
  field \<open>DeepEqual\<close>; it need not be reflexive, since a floating-point NaN held by value is
  not deeply equal to itself. The order in which a \<^verbatim>\<open>range\<close> statement visits the entries of a
  Go map is not specified and may differ from one statement to the next: \<open>rangeOrder\<close>
  gives, for each of the four such statements that a run of \<^verbatim>\<open>Diff\<close> executes, the rank of
  every entry of the map, and the statement visits the entries by increasing rank
  (\<open>rangeBy\<close>). Every order of the entries is obtained from some rank.
\<close>

datatype rangeSite = OrigLeaves | ModLeaves | OrigLeavesStr | ModLeavesStr

definition rangeBy :: "(nat \<Rightarrow> nat) \<Rightarrow> 'a list \<Rightarrow> 'a list" where
  "rangeBy rank entries = map snd (sort_key (\<lambda>(i, x). rank i) (enumerate 0 entries))"

record ('s, 'l, 'km, 'v, 'tv) ygot_env =
  TypeOf :: "'s \<Rightarrow> string"
  ForEachDataField :: "'s \<Rightarrow> ('l, 'v) NodeInfo list"
  ListKeyMap :: "'l \<Rightarrow> string + 'km"
  keyMapAsStrings :: "'km \<Rightarrow> string + (string, string) fmap"
  PathToString :: "Path \<Rightarrow> string + string"
  EncodeTypedValue :: "'v \<Rightarrow> string + 'tv"
  DeepEqual :: "'v \<Rightarrow> 'v \<Rightarrow> bool"
  rangeOrder :: "rangeSite \<Rightarrow> nat \<Rightarrow> nat"

definition nodeRootPath :: "string list list \<Rightarrow> pathSpec" where
  "nodeRootPath schemaPaths = \<lparr>gNMIPaths = Some (map schemaPathTogNMIPath schemaPaths)\<rparr>"

definition nodeChildPath :: "pathSpec option \<Rightarrow> string list list \<Rightarrow> ygot_error + pathSpec" where
  "nodeChildPath parentPath schemaPaths =
     (case parentPath of
        None \<Rightarrow> Inl NoAnnotationForCompletePath
      | Some pp \<Rightarrow>
          (case gNMIPaths pp of
             None \<Rightarrow> Inl NoAnnotationForCompletePath
           | Some ps \<Rightarrow>
               Inr \<lparr>gNMIPaths = Some (concat (map (\<lambda>p. map (\<lambda>s. joingNMIPaths p (schemaPathTogNMIPath s))
                                                        schemaPaths) ps))\<rparr>))"

text \<open>
  The loop of \<^verbatim>\<open>nodeMapPath\<close>: each parent path is cloned and the key of its last element
  is set to the keys of the entry. A parent path without elements makes the index
  \<^verbatim>\<open>len(p.Elem)-1\<close> panic; the model returns \<open>ElemIndexOutOfRange\<close> there.
\<close>

definition setLastKey :: "(string, string) fmap \<Rightarrow> Path \<Rightarrow> Path" where
  "setLastKey strkeys p =
     p\<lparr>Elem := (Elem p)[length (Elem p) - 1 := (Elem p ! (length (Elem p) - 1))\<lparr>Key := strkeys\<rparr>]\<rparr>"

fun nodeMapPathLoop :: "(string, string) fmap \<Rightarrow> Path list \<Rightarrow> Path list \<Rightarrow> ygot_error + pathSpec" where
  "nodeMapPathLoop strkeys gPaths [] = Inr \<lparr>gNMIPaths = Some gPaths\<rparr>"
| "nodeMapPathLoop strkeys gPaths (p # ps) =
     (if length (Elem p) = 0 then Inl ElemIndexOutOfRange
      else nodeMapPathLoop strkeys (gPaths @ [setLastKey strkeys p]) ps)"

definition nodeMapPath :: "('s, 'l, 'km, 'v, 'tv) ygot_env \<Rightarrow> 'l \<Rightarrow> pathSpec option
    \<Rightarrow> ygot_error + pathSpec" where
  "nodeMapPath env list parentPath =
     (case ListKeyMap env list of
        Inl err \<Rightarrow> Inl (ListKeyMapFailed err)
      | Inr keys \<Rightarrow>
          (case keyMapAsStrings env keys of
             Inl err \<Rightarrow> Inl (CannotConvertKeys err)
           | Inr strkeys \<Rightarrow>
               (case parentPath of
                  None \<Rightarrow> Inl InvalidListMemberNoParent
                | Some pp \<Rightarrow>
                    (case gNMIPaths pp of
                       None \<Rightarrow> Inl InvalidListMemberNoParent
                     | Some ps \<Rightarrow> nodeMapPathLoop strkeys [] ps))))"

fun getPathSpec :: "annotation list \<Rightarrow> ygot_error + pathSpec option" where
  "getPathSpec [] = Inl NoPathSpecAnnotation"
| "getPathSpec (a # rest) = (case a of PathSpecAnn p \<Rightarrow> Inr p | OtherAnn \<Rightarrow> getPathSpec rest)"

text \<open>
  \<open>parentAnnotation\<close> is \<open>None\<close> exactly when \<^verbatim>\<open>ni.Parent == nil || ni.Parent.Annotation == nil\<close>.
\<close>

definition parentAnnotation :: "annotations \<Rightarrow> ('l, 'v) NodeInfo \<Rightarrow> annotation list option" where
  "parentAnnotation ann ni = (case Parent ni of None \<Rightarrow> None | Some parent \<Rightarrow> ann parent)"

definition nodeValuePath :: "('s, 'l, 'km, 'v, 'tv) ygot_env \<Rightarrow> annotations \<Rightarrow> ('l, 'v) NodeInfo
    \<Rightarrow> string list list \<Rightarrow> ygot_error + pathSpec" where
  "nodeValuePath env ann ni schemaPaths =
     (case parentAnnotation ann ni of
        None \<Rightarrow> Inr (nodeRootPath schemaPaths)
      | Some a \<Rightarrow>
          (case getPathSpec a of
             Inl err \<Rightarrow> Inl err
           | Inr cp \<Rightarrow>
               (case KeyHelperGoStruct (FieldValue ni) of
                  Some l \<Rightarrow> nodeMapPath env l cp
                | None \<Rightarrow> nodeChildPath cp schemaPaths)))"

text \<open>
  The path of a list entry as the specification words it: to each address of the owning
  collection field, append one path element with the list name and the keys of the entry.
\<close>

definition spec_listEntryPaths :: "string \<Rightarrow> (string, string) fmap \<Rightarrow> Path list \<Rightarrow> Path list" where
  "spec_listEntryPaths listName strkeys ps =
     map (\<lambda>p. p\<lparr>Elem := Elem p @ [\<lparr>Name = listName, Key = strkeys\<rparr>]\<rparr>) ps"

section \<open>Tree flattening (ygot/diff.go)\<close>

record DiffPathOpt =
  MapToSinglePath :: bool
  PreferShadowPath :: bool

text \<open>
  The options are pointers: \<open>None\<close> is a nil pointer of the option's type.
\<close>

datatype DiffOpt = IgnoreAdditions "unit option" | DiffPathOptPtr "DiffPathOpt option"

fun hasDiffPathOpt :: "DiffOpt list \<Rightarrow> DiffPathOpt option" where
  "hasDiffPathOpt [] = None"
| "hasDiffPathOpt (opt # opts) =
     (case opt of DiffPathOptPtr v \<Rightarrow> v | IgnoreAdditions _ \<Rightarrow> hasDiffPathOpt opts)"

fun hasIgnoreAdditions :: "DiffOpt list \<Rightarrow> unit option" where
  "hasIgnoreAdditions [] = None"
| "hasIgnoreAdditions (opt # opts) =
     (case opt of IgnoreAdditions v \<Rightarrow> v | DiffPathOptPtr _ \<Rightarrow> hasIgnoreAdditions opts)"

text \<open>
  \<^verbatim>\<open>leastSpecificPath\<close>: \<open>shortPath\<close> starts as the nil slice, \<open>None\<close>. The declared paths
  of a field come from splitting its struct tag and are not nil slices themselves.
\<close>

fun leastSpecificLoop :: "string list option \<Rightarrow> string list list \<Rightarrow> string list option" where
  "leastSpecificLoop shortPath [] = shortPath"
| "leastSpecificLoop shortPath (p # paths) =
     (let shortPath1 = (if shortPath = None then Some p else shortPath);
          shortPath2 = (if length p < len shortPath1 then Some p else shortPath1)
      in leastSpecificLoop shortPath2 paths)"

definition leastSpecificPath :: "string list list \<Rightarrow> string list option" where
  "leastSpecificPath paths = leastSpecificLoop None paths"

fun pathStrings :: "(Path \<Rightarrow> string + string) \<Rightarrow> Path list \<Rightarrow> ygot_error + string list" where
  "pathStrings pts [] = Inr []"
| "pathStrings pts (p # ps) =
     (case pts p of
        Inl err \<Rightarrow> Inl (PathToStringFailed err)
      | Inr s \<Rightarrow> (case pathStrings pts ps of Inl err \<Rightarrow> Inl err | Inr keys \<Rightarrow> Inr (s # keys)))"

fun joinStrings :: "string \<Rightarrow> string list \<Rightarrow> string" where
  "joinStrings sep [] = []"
| "joinStrings sep [s] = s"
| "joinStrings sep (s # t # rest) = s @ sep @ joinStrings sep (t # rest)"

text \<open>
  The state of one walk: the keys already processed, the annotation store, the leaves found
  (a Go map keyed by the address of a fresh pathSpec, hence one entry for each insertion; the
  list keeps them in the order of insertion) and the errors that the walk collects.
\<close>

record 'v walkState =
  processedPaths :: "string set"
  Annotation :: annotations
  outs :: "(pathSpec \<times> 'v) list"
  errs :: "ygot_error list"

definition declaredPaths :: "DiffPathOpt option \<Rightarrow> StructField \<Rightarrow> ygot_error + string list list" where
  "declaredPaths pathOpt sf =
     (let sp = (case pathOpt of
                  None \<Rightarrow> []
                | Some po \<Rightarrow> if PreferShadowPath po then ShadowSchemaPaths sf else [])
      in if length sp = 0 then
           (case SchemaPaths sf of
              Inl err \<Rightarrow> Inl (SchemaPathsFailed err)
            | Inr sp' \<Rightarrow> if length sp' = 0 then Inl (InvalidSchemaPath (fieldName sf)) else Inr sp')
         else Inr sp)"

definition singlePath :: "DiffPathOpt option \<Rightarrow> string list list \<Rightarrow> string list list" where
  "singlePath pathOpt sp =
     (case pathOpt of
        None \<Rightarrow> sp
      | Some po \<Rightarrow> if MapToSinglePath po then [rangeOf (leastSpecificPath sp)] else sp)"

definition findSetIterFunc :: "('s, 'l, 'km, 'v, 'tv) ygot_env \<Rightarrow> DiffPathOpt option
    \<Rightarrow> ('l, 'v) NodeInfo \<Rightarrow> 'v walkState \<Rightarrow> 'v walkState" where
  "findSetIterFunc env pathOpt ni st =
     (case StructField ni of
        None \<Rightarrow> st
      | Some sf \<Rightarrow>
          if IsYgotAnnotation sf then st
          else
            (case declaredPaths pathOpt sf of
               Inl err \<Rightarrow> st\<lparr>errs := errs st @ [err]\<rparr>
             | Inr sp \<Rightarrow>
                 (case nodeValuePath env (Annotation st) ni (singlePath pathOpt sp) of
                    Inl err \<Rightarrow> st\<lparr>errs := errs st @ [err]\<rparr>
                  | Inr vp \<Rightarrow>
                      (case pathStrings (PathToString env) (rangeOf (gNMIPaths vp)) of
                         Inl err \<Rightarrow> st\<lparr>errs := errs st @ [err]\<rparr>
                       | Inr keys \<Rightarrow>
                           (let key = joinStrings ''/'' (sort keys) in
                            if key \<in> processedPaths st then st
                            else
                              (let st' = st\<lparr>processedPaths := insert key (processedPaths st),
                                            Annotation := (Annotation st)(nid ni \<mapsto> [PathSpecAnn (Some vp)])\<rparr>;
                                   fv = FieldValue ni
                               in if IsNilOrInvalidValue fv \<or> IsValueNilOrDefault fv
                                     \<or> IsValueStructPtr fv \<or> IsValueMap fv then st'
                                  else if GoEnum fv = Some 0 then st'
                                  else st'\<lparr>outs := outs st' @ [(vp, Interface fv)]\<rparr>))))))"

definition findSetLeaves :: "('s, 'l, 'km, 'v, 'tv) ygot_env \<Rightarrow> 's \<Rightarrow> DiffOpt list
    \<Rightarrow> ygot_error + (pathSpec \<times> 'v) list" where
  "findSetLeaves env s opts =
     (let st = fold (findSetIterFunc env (hasDiffPathOpt opts)) (ForEachDataField env s)
                 \<lparr>processedPaths = {}, Annotation = (\<lambda>_. None), outs = [], errs = []\<rparr>
      in if errs st \<noteq> [] then Inl (ForEachDataFieldErrors (errs st)) else Inr (outs st))"

section \<open>Diff (ygot/diff.go)\<close>

record 'v pathInfo =
  pi_val :: 'v
  pi_path :: Path

record 'tv Update =
  Path :: Path
  Val :: 'tv

record 'tv Notification =
  Prefix :: "Path option"
  Update :: "'tv Update list"
  Delete :: "Path list"
  Atomic :: bool

text \<open>
  A Go map from strings is an association list with distinct keys: a store replaces the
  value of a key that is there and appends a new key. A \<^verbatim>\<open>range\<close> over a map visits its
  entries in the order that the rank of the statement gives.
\<close>

fun toStringPathMapPaths :: "(Path \<Rightarrow> string + string) \<Rightarrow> 'v \<Rightarrow> (string \<times> 'v pathInfo) list
    \<Rightarrow> Path list \<Rightarrow> ygot_error + (string \<times> 'v pathInfo) list" where
  "toStringPathMapPaths pts v strPathMap [] = Inr strPathMap"
| "toStringPathMapPaths pts v strPathMap (p # ps) =
     (case pts p of
        Inl err \<Rightarrow> Inl (PathToStringFailed err)
      | Inr strPath \<Rightarrow>
          toStringPathMapPaths pts v (AList.update strPath \<lparr>pi_val = v, pi_path = p\<rparr> strPathMap) ps)"

fun toStringPathMapLoop :: "(Path \<Rightarrow> string + string) \<Rightarrow> (string \<times> 'v pathInfo) list
    \<Rightarrow> (pathSpec \<times> 'v) list \<Rightarrow> ygot_error + (string \<times> 'v pathInfo) list" where
  "toStringPathMapLoop pts strPathMap [] = Inr strPathMap"
| "toStringPathMapLoop pts strPathMap ((paths, v) # pathMap) =
     (case toStringPathMapPaths pts v strPathMap (rangeOf (gNMIPaths paths)) of
        Inl err \<Rightarrow> Inl err
      | Inr strPathMap' \<Rightarrow> toStringPathMapLoop pts strPathMap' pathMap)"

definition toStringPathMap :: "('s, 'l, 'km, 'v, 'tv) ygot_env \<Rightarrow> (nat \<Rightarrow> nat)
    \<Rightarrow> (pathSpec \<times> 'v) list \<Rightarrow> ygot_error + (string \<times> 'v pathInfo) list" where
  "toStringPathMap env rank pathMap =
     toStringPathMapLoop (PathToString env) [] (rangeBy rank pathMap)"

definition appendUpdate :: "('s, 'l, 'km, 'v, 'tv) ygot_env \<Rightarrow> 'tv Notification \<Rightarrow> string
    \<Rightarrow> 'v pathInfo \<Rightarrow> ygot_error + 'tv Notification" where
  "appendUpdate env n strPath pinfo =
     (case EncodeTypedValue env (pi_val pinfo) of
        Inl err \<Rightarrow> Inl (CannotRepresentValue strPath err)
      | Inr v \<Rightarrow> Inr (n\<lparr>Update := Update n @ [\<lparr>Path = pi_path pinfo, Val = v\<rparr>]\<rparr>))"

text \<open>The first loop of \<^verbatim>\<open>Diff\<close>, over the leaves of the original struct.\<close>

fun diffOriginal :: "('s, 'l, 'km, 'v, 'tv) ygot_env \<Rightarrow> (string \<times> 'v pathInfo) list
    \<Rightarrow> 'tv Notification \<Rightarrow> (string \<times> 'v pathInfo) list \<Rightarrow> ygot_error + 'tv Notification" where
  "diffOriginal env modLeavesStr n [] = Inr n"
| "diffOriginal env modLeavesStr n ((origPath, origVal) # rest) =
     (case map_of modLeavesStr origPath of
        Some modVal \<Rightarrow>
          if \<not> DeepEqual env (pi_val origVal) (pi_val modVal) then
            (case appendUpdate env n origPath modVal of
               Inl err \<Rightarrow> Inl err
             | Inr n' \<Rightarrow> diffOriginal env modLeavesStr n' rest)
          else diffOriginal env modLeavesStr n rest
      | None \<Rightarrow> diffOriginal env modLeavesStr (n\<lparr>Delete := Delete n @ [pi_path origVal]\<rparr>) rest)"

text \<open>The second loop, over the leaves of the modified struct.\<close>

fun diffModified :: "('s, 'l, 'km, 'v, 'tv) ygot_env \<Rightarrow> (string \<times> 'v pathInfo) list
    \<Rightarrow> 'tv Notification \<Rightarrow> (string \<times> 'v pathInfo) list \<Rightarrow> ygot_error + 'tv Notification" where
  "diffModified env origLeavesStr n [] = Inr n"
| "diffModified env origLeavesStr n ((modPath, modVal) # rest) =
     (case map_of origLeavesStr modPath of
        None \<Rightarrow>
          (case appendUpdate env n modPath modVal of
             Inl err \<Rightarrow> Inl err
           | Inr n' \<Rightarrow> diffModified env origLeavesStr n' rest)
      | Some _ \<Rightarrow> diffModified env origLeavesStr n rest)"

definition Diff :: "('s, 'l, 'km, 'v, 'tv) ygot_env \<Rightarrow> 's \<Rightarrow> 's \<Rightarrow> DiffOpt list
    \<Rightarrow> ygot_error + 'tv Notification" where
  "Diff env original modified opts =
     (if TypeOf env original \<noteq> TypeOf env modified
      then Inl (DifferentTypes (TypeOf env original) (TypeOf env modified))
      else
        (case findSetLeaves env original opts of
           Inl err \<Rightarrow> Inl (OriginalLeaves err)
         | Inr origLeaves \<Rightarrow>
        (case findSetLeaves env modified opts of
           Inl err \<Rightarrow> Inl (ModifiedLeaves err)
         | Inr modLeaves \<Rightarrow>
        (case toStringPathMap env (rangeOrder env OrigLeaves) origLeaves of
           Inl err \<Rightarrow> Inl (ConvertLeafPathMap err)
         | Inr origLeavesStr \<Rightarrow>
        (case toStringPathMap env (rangeOrder env ModLeaves) modLeaves of
           Inl err \<Rightarrow> Inl (ConvertLeafPathMap err)
         | Inr modLeavesStr \<Rightarrow>
        (case diffOriginal env modLeavesStr
                \<lparr>Prefix = None, Update = [], Delete = [], Atomic = False\<rparr>
                (rangeBy (rangeOrder env OrigLeavesStr) origLeavesStr) of
           Inl err \<Rightarrow> Inl err
         | Inr n \<Rightarrow>
             if hasIgnoreAdditions opts \<noteq> None then Inr n
             else diffModified env origLeavesStr n
                    (rangeBy (rangeOrder env ModLeavesStr) modLeavesStr)))))))"

text \<open>
  The flattened map of a struct: its set leaves, keyed by the string of each of their paths,
  as \<^verbatim>\<open>toStringPathMap\<close> builds it when it ranges over the leaves by the given rank.
\<close>

definition flattened :: "('s, 'l, 'km, 'v, 'tv) ygot_env \<Rightarrow> (nat \<Rightarrow> nat) \<Rightarrow> 's \<Rightarrow> DiffOpt list
    \<Rightarrow> ygot_error + (string \<times> 'v pathInfo) list" where
  "flattened env rank s opts =
     (case findSetLeaves env s opts of
        Inl err \<Rightarrow> Inl err
      | Inr leaves \<Rightarrow> toStringPathMap env rank leaves)"

text \<open>
  The path strings of a recorded leaf, and the condition that no two recorded leaves of a
  struct share one.
\<close>

definition leafStrings :: "(Path \<Rightarrow> string + string) \<Rightarrow> pathSpec \<Rightarrow> string list" where
  "leafStrings pts vp =
     concat (map (\<lambda>p. case pts p of Inl err \<Rightarrow> [] | Inr s \<Rightarrow> [s]) (rangeOf (gNMIPaths vp)))"

definition noSharedPath :: "('s, 'l, 'km, 'v, 'tv) ygot_env \<Rightarrow> (pathSpec \<times> 'v) list \<Rightarrow> bool" where
  "noSharedPath env leaves \<longleftrightarrow>
     (\<forall>i<length leaves. \<forall>j<length leaves. i \<noteq> j \<longrightarrow>
        set (leafStrings (PathToString env) (fst (leaves ! i)))
          \<inter> set (leafStrings (PathToString env) (fst (leaves ! j))) = {})"

text \<open>
  \<open>firstShortest sp r\<close>: the path \<open>r\<close> stands in the slice \<open>sp\<close>, every path before it is
  strictly longer and no path after it is shorter.
\<close>

definition firstShortest :: "string list list \<Rightarrow> string list \<Rightarrow> bool" where
  "firstShortest sp r \<longleftrightarrow>
     (\<exists>pre post. sp = pre @ r # post
        \<and> (\<forall>x\<in>set pre. length r < length x) \<and> (\<forall>x\<in>set post. length r \<le> length x))"

text \<open>Every annotation of the store is one path specification of exactly one address.\<close>

definition singleAddressStore :: "annotations \<Rightarrow> bool" where
  "singleAddressStore ann \<longleftrightarrow>
     (\<forall>a as. ann a = Some as \<longrightarrow> (\<exists>p. as = [PathSpecAnn (Some \<lparr>gNMIPaths = Some [p]\<rparr>)]))"

text \<open>
  What single-path mode records for a leaf: the value of a visited node, under exactly one
  address, which ends with the first of the shortest declared paths of the node's field
  (for a node that is not a list entry).
\<close>

definition recordedSingle :: "DiffPathOpt \<Rightarrow> ('l, 'v) NodeInfo list \<Rightarrow> pathSpec \<Rightarrow> 'v \<Rightarrow> bool" where
  "recordedSingle po visited vp v \<longleftrightarrow>
     (\<exists>ni sf sp r p. ni \<in> set visited \<and> StructField ni = Some sf
        \<and> declaredPaths (Some po) sf = Inr sp \<and> firstShortest sp r
        \<and> v = Interface (FieldValue ni)
        \<and> gNMIPaths vp = Some [p]
        \<and> (KeyHelperGoStruct (FieldValue ni) = None \<longrightarrow>
             (\<exists>up. Elem p = up @ Elem (schemaPathTogNMIPath r))))"

text \<open>
  The least specific path as the specification words it: among the declared paths with the
  fewest elements, the first one of the slice.
\<close>

definition spec_leastSpecific :: "string list list \<Rightarrow> string list" where
  "spec_leastSpecific sp = hd (filter (\<lambda>x. \<forall>y\<in>set sp. length x \<le> length y) sp)"

text \<open>
  A notification carries an update for a leaf when its update list holds the path of the
  leaf with the encoding of its value.
\<close>

definition carriesUpdate :: "('s, 'l, 'km, 'v, 'tv) ygot_env \<Rightarrow> 'tv Notification \<Rightarrow> 'v pathInfo \<Rightarrow> bool" where
  "carriesUpdate env n pinfo =
     (case EncodeTypedValue env (pi_val pinfo) of
        Inl err \<Rightarrow> False
      | Inr v \<Rightarrow> \<lparr>Path = pi_path pinfo, Val = v\<rparr> \<in> set (Update n))"

section \<open>Applying edit requests (ytypes)\<close>

text \<open>
  The tree that \<^verbatim>\<open>schema.Root\<close> points to is mutated in place. The model passes it as a state
  \<open>'t\<close>; a node inside it is a handle \<open>'n\<close>. The node operations of package ytypes
  (\<^verbatim>\<open>GetOrCreateNode\<close>, \<^verbatim>\<open>DeleteNode\<close>, \<^verbatim>\<open>SetNode\<close>), \<^verbatim>\<open>util.JoinPaths\<close>, the two option tests and
  the reflection on a node are defined outside the files verified here: they are the fields
  of an environment. Each node operation returns its error, if any, and the tree as it has left it,
  also when it fails.
\<close>

datatype ytypes_error =
    FailedGetOrCreatePrefix string
  | PrefixNotGoStruct
  | CannotJoinPrefixDeletion string
  | CannotJoinPrefixUpdate string
  | DeleteNodeError string
  | SetNodeError string

datatype NodeOpt = PreferShadowPathOpt | InitMissingElements | IgnoreExtraFields

record ('t, 'n, 'e, 'i, 'tv, 'o) ytypes_env =
  hasPreferShadowPath :: "'o list \<Rightarrow> bool"
  hasIgnoreExtraFields :: "'o list \<Rightarrow> bool"
  GetOrCreateNode :: "'e option \<Rightarrow> 'n \<Rightarrow> Path option \<Rightarrow> NodeOpt list \<Rightarrow> 't \<Rightarrow> (string + 'i) \<times> 't"
  asGoStruct :: "'i \<Rightarrow> 'n option"
  typeName :: "'n \<Rightarrow> string"
  DeleteNode :: "'e option \<Rightarrow> 'n \<Rightarrow> Path \<Rightarrow> NodeOpt list \<Rightarrow> 't \<Rightarrow> string option \<times> 't"
  SetNode :: "'e option \<Rightarrow> 'n \<Rightarrow> Path \<Rightarrow> 'tv \<Rightarrow> NodeOpt list \<Rightarrow> 't \<Rightarrow> string option \<times> 't"
  JoinPaths :: "Path \<Rightarrow> Path \<Rightarrow> string + Path"

record ('n, 'e) Schema =
  Root :: 'n
  RootSchema :: "'e option"
  SchemaTree :: "string \<Rightarrow> 'e option"

record 'tv SetRequest =
  reqPrefix :: "Path option"
  reqDelete :: "Path list"
  reqReplace :: "'tv Update list"
  reqUpdate :: "'tv Update list"

definition getOrCreateNode :: "('t, 'n, 'e, 'i, 'tv, 'o) ytypes_env \<Rightarrow> 'e option \<Rightarrow> 'n
    \<Rightarrow> Path option \<Rightarrow> bool \<Rightarrow> 't \<Rightarrow> (ytypes_error + 'n \<times> string) \<times> 't" where
  "getOrCreateNode env schema goStruct p preferShadowPath t =
     (let gcopts = (if preferShadowPath then [PreferShadowPathOpt] else []) in
      case GetOrCreateNode env schema goStruct p gcopts t of
        (Inl err, t') \<Rightarrow> (Inl (FailedGetOrCreatePrefix err), t')
      | (Inr nodeI, t') \<Rightarrow>
          (case asGoStruct env nodeI of
             None \<Rightarrow> (Inl PrefixNotGoStruct, t')
           | Some node \<Rightarrow> (Inr (node, typeName env node), t')))"

fun deletePaths :: "('t, 'n, 'e, 'i, 'tv, 'o) ytypes_env \<Rightarrow> 'e option \<Rightarrow> 'n \<Rightarrow> Path option
    \<Rightarrow> Path list \<Rightarrow> bool \<Rightarrow> 't \<Rightarrow> ytypes_error option \<times> 't" where
  "deletePaths env schema goStruct prefix [] preferShadowPath t = (None, t)"
| "deletePaths env schema goStruct prefix (p # paths) preferShadowPath t =
     (let dopts = (if preferShadowPath then [PreferShadowPathOpt] else []) in
      case (case prefix of None \<Rightarrow> Inr p | Some pre \<Rightarrow> JoinPaths env pre p) of
        Inl err \<Rightarrow> (Some (CannotJoinPrefixDeletion err), t)
      | Inr p' \<Rightarrow>
          (case DeleteNode env schema goStruct p' dopts t of
             (Some err, t') \<Rightarrow> (Some (DeleteNodeError err), t')
           | (None, t') \<Rightarrow> deletePaths env schema goStruct prefix paths preferShadowPath t'))"

definition joinPrefixToUpdate :: "('t, 'n, 'e, 'i, 'tv, 'o) ytypes_env \<Rightarrow> Path option
    \<Rightarrow> 'tv Update \<Rightarrow> ytypes_error + 'tv Update" where
  "joinPrefixToUpdate env prefix update =
     (case prefix of
        None \<Rightarrow> Inr update
      | Some pre \<Rightarrow>
          (case JoinPaths env pre (Path update) of
             Inl err \<Rightarrow> Inl (CannotJoinPrefixUpdate err)
           | Inr joined \<Rightarrow> Inr \<lparr>Path = joined, Val = Val update\<rparr>))"

definition setNode :: "('t, 'n, 'e, 'i, 'tv, 'o) ytypes_env \<Rightarrow> 'e option \<Rightarrow> 'n \<Rightarrow> 'tv Update
    \<Rightarrow> bool \<Rightarrow> bool \<Rightarrow> 't \<Rightarrow> ytypes_error option \<times> 't" where
  "setNode env schema goStruct update preferShadowPath ignoreExtraFields t =
     (let sopts = [InitMissingElements]
                  @ (if preferShadowPath then [PreferShadowPathOpt] else [])
                  @ (if ignoreExtraFields then [IgnoreExtraFields] else []) in
      case SetNode env schema goStruct (Path update) (Val update) sopts t of
        (Some err, t') \<Rightarrow> (Some (SetNodeError err), t')
      | (None, t') \<Rightarrow> (None, t'))"

fun replacePaths :: "('t, 'n, 'e, 'i, 'tv, 'o) ytypes_env \<Rightarrow> 'e option \<Rightarrow> 'n \<Rightarrow> Path option
    \<Rightarrow> 'tv Update list \<Rightarrow> bool \<Rightarrow> bool \<Rightarrow> 't \<Rightarrow> ytypes_error option \<times> 't" where
  "replacePaths env schema goStruct prefix [] preferShadowPath ignoreExtraFields t = (None, t)"
| "replacePaths env schema goStruct prefix (update # updates) preferShadowPath ignoreExtraFields t =
     (let dopts = (if preferShadowPath then [PreferShadowPathOpt] else []) in
      case joinPrefixToUpdate env prefix update of
        Inl err \<Rightarrow> (Some err, t)
      | Inr update' \<Rightarrow>
          (case DeleteNode env schema goStruct (Path update') dopts t of
             (Some err, t') \<Rightarrow> (Some (DeleteNodeError err), t')
           | (None, t') \<Rightarrow>
               (case setNode env schema goStruct update' preferShadowPath ignoreExtraFields t' of
                  (Some err, t'') \<Rightarrow> (Some err, t'')
                | (None, t'') \<Rightarrow>
                    replacePaths env schema goStruct prefix updates preferShadowPath
                      ignoreExtraFields t'')))"

fun updatePaths :: "('t, 'n, 'e, 'i, 'tv, 'o) ytypes_env \<Rightarrow> 'e option \<Rightarrow> 'n \<Rightarrow> Path option
    \<Rightarrow> 'tv Update list \<Rightarrow> bool \<Rightarrow> bool \<Rightarrow> 't \<Rightarrow> ytypes_error option \<times> 't" where
  "updatePaths env schema goStruct prefix [] preferShadowPath ignoreExtraFields t = (None, t)"
| "updatePaths env schema goStruct prefix (update # updates) preferShadowPath ignoreExtraFields t =
     (case joinPrefixToUpdate env prefix update of
        Inl err \<Rightarrow> (Some err, t)
      | Inr update' \<Rightarrow>
          (case setNode env schema goStruct update' preferShadowPath ignoreExtraFields t of
             (Some err, t') \<Rightarrow> (Some err, t')
           | (None, t') \<Rightarrow>
               updatePaths env schema goStruct prefix updates preferShadowPath
                 ignoreExtraFields t'))"

text \<open>
  The first step of \<^verbatim>\<open>UnmarshalSetRequest\<close>: the node that the prefix addresses, its name and
  no prefix to carry; or, when \<^verbatim>\<open>getOrCreateNode\<close> fails, the root, its name and the prefix
  of the request, to be joined to every path.
\<close>

definition addressSubject :: "('t, 'n, 'e, 'i, 'tv, 'o) ytypes_env \<Rightarrow> ('n, 'e) Schema
    \<Rightarrow> Path option \<Rightarrow> bool \<Rightarrow> 't \<Rightarrow> ('n \<times> string \<times> Path option) \<times> 't" where
  "addressSubject env schema reqprefix preferShadowPath t =
     (case getOrCreateNode env (RootSchema schema) (Root schema) reqprefix preferShadowPath t of
        (Inl err, t') \<Rightarrow> ((Root schema, typeName env (Root schema), reqprefix), t')
      | (Inr (node, nodeName), t') \<Rightarrow> ((node, nodeName, None), t'))"

definition UnmarshalSetRequest :: "('t, 'n, 'e, 'i, 'tv, 'o) ytypes_env \<Rightarrow> ('n, 'e) Schema
    \<Rightarrow> 'tv SetRequest option \<Rightarrow> 'o list \<Rightarrow> 't \<Rightarrow> ytypes_error option \<times> 't" where
  "UnmarshalSetRequest env schema req opts t =
     (let preferShadowPath = hasPreferShadowPath env opts;
          ignoreExtraFields = hasIgnoreExtraFields env opts in
      case req of
        None \<Rightarrow> (None, t)
      | Some r \<Rightarrow>
          (case addressSubject env schema (reqPrefix r) preferShadowPath t of
             ((node, nodeName, prefix), t0) \<Rightarrow>
          (case deletePaths env (SchemaTree schema nodeName) node prefix (reqDelete r)
                  preferShadowPath t0 of
             (Some err, t1) \<Rightarrow> (Some err, t1)
           | (None, t1) \<Rightarrow>
          (case replacePaths env (SchemaTree schema nodeName) node prefix (reqReplace r)
                  preferShadowPath ignoreExtraFields t1 of
             (Some err, t2) \<Rightarrow> (Some err, t2)
           | (None, t2) \<Rightarrow>
               updatePaths env (SchemaTree schema nodeName) node prefix (reqUpdate r)
                 preferShadowPath ignoreExtraFields t2))))"


section \<open>The mutation engine as the specification words it\<close>

text \<open>
  The specification describes one edit request as an ordered batch of operations, the
  deletes, then the replaces, then the updates, each of them applied to the tree that the
  operations before it have left, and a batch as stopping at the first operation that fails,
  with the tree as it then is. The definitions of this section follow these words, from the
  node operations alone; the functions of the code are compared with them below.
\<close>

datatype 'tv editOp = DeleteOp Path | ReplaceOp "'tv Update" | UpdateOp "'tv Update"

definition spec_requestOps :: "'tv SetRequest \<Rightarrow> 'tv editOp list" where
  "spec_requestOps r =
     map DeleteOp (reqDelete r) @ map ReplaceOp (reqReplace r) @ map UpdateOp (reqUpdate r)"

text \<open>
  A batch is run operation by operation; the first error ends it and is returned with the
  tree as the failing operation has left it. Nothing is undone.
\<close>

fun spec_runOps :: "('op \<Rightarrow> 't \<Rightarrow> 'err option \<times> 't) \<Rightarrow> 'op list \<Rightarrow> 't \<Rightarrow> 'err option \<times> 't" where
  "spec_runOps ap [] t = (None, t)"
| "spec_runOps ap (op # ops) t =
     (case ap op t of
        (Some err, t') \<Rightarrow> (Some err, t')
      | (None, t') \<Rightarrow> spec_runOps ap ops t')"

text \<open>
  The options honored throughout: shadow-path preference for every address resolution;
  for a set also the instantiation of missing elements and the tolerance of unrecognized
  fields.
\<close>

definition spec_pathOpts :: "bool \<Rightarrow> NodeOpt list" where
  "spec_pathOpts preferShadowPath = (if preferShadowPath then [PreferShadowPathOpt] else [])"

definition spec_setOpts :: "bool \<Rightarrow> bool \<Rightarrow> NodeOpt list" where
  "spec_setOpts preferShadowPath ignoreExtraFields =
     [InitMissingElements] @ (if preferShadowPath then [PreferShadowPathOpt] else [])
       @ (if ignoreExtraFields then [IgnoreExtraFields] else [])"

text \<open>The address of an operation: its own, joined with the carried prefix if any.\<close>

definition spec_join :: "('t, 'n, 'e, 'i, 'tv, 'o) ytypes_env \<Rightarrow> Path option \<Rightarrow> Path
    \<Rightarrow> string + Path" where
  "spec_join env carried p = (case carried of None \<Rightarrow> Inr p | Some pre \<Rightarrow> JoinPaths env pre p)"

definition spec_delete :: "('t, 'n, 'e, 'i, 'tv, 'o) ytypes_env \<Rightarrow> 'e option \<Rightarrow> 'n \<Rightarrow> bool
    \<Rightarrow> Path \<Rightarrow> 't \<Rightarrow> ytypes_error option \<times> 't" where
  "spec_delete env schema subject preferShadowPath a t =
     (case DeleteNode env schema subject a (spec_pathOpts preferShadowPath) t of
        (Some err, t') \<Rightarrow> (Some (DeleteNodeError err), t')
      | (None, t') \<Rightarrow> (None, t'))"

definition spec_set :: "('t, 'n, 'e, 'i, 'tv, 'o) ytypes_env \<Rightarrow> 'e option \<Rightarrow> 'n \<Rightarrow> bool \<Rightarrow> bool
    \<Rightarrow> Path \<Rightarrow> 'tv \<Rightarrow> 't \<Rightarrow> ytypes_error option \<times> 't" where
  "spec_set env schema subject preferShadowPath ignoreExtraFields a v t =
     (case SetNode env schema subject a v (spec_setOpts preferShadowPath ignoreExtraFields) t of
        (Some err, t') \<Rightarrow> (Some (SetNodeError err), t')
      | (None, t') \<Rightarrow> (None, t'))"

text \<open>
  One operation: a delete removes what is at the address; a replace deletes what is at the
  address and then sets the address to the value; an update sets the address to the value.
\<close>

fun spec_applyOp :: "('t, 'n, 'e, 'i, 'tv, 'o) ytypes_env \<Rightarrow> 'e option \<Rightarrow> 'n \<Rightarrow> Path option
    \<Rightarrow> bool \<Rightarrow> bool \<Rightarrow> 'tv editOp \<Rightarrow> 't \<Rightarrow> ytypes_error option \<times> 't" where
  "spec_applyOp env schema subject carried psp ief (DeleteOp p) t =
     (case spec_join env carried p of
        Inl err \<Rightarrow> (Some (CannotJoinPrefixDeletion err), t)
      | Inr a \<Rightarrow> spec_delete env schema subject psp a t)"
| "spec_applyOp env schema subject carried psp ief (ReplaceOp u) t =
     (case spec_join env carried (Path u) of
        Inl err \<Rightarrow> (Some (CannotJoinPrefixUpdate err), t)
      | Inr a \<Rightarrow>
          (case spec_delete env schema subject psp a t of
             (Some err, t') \<Rightarrow> (Some err, t')
           | (None, t') \<Rightarrow> spec_set env schema subject psp ief a (Val u) t'))"
| "spec_applyOp env schema subject carried psp ief (UpdateOp u) t =
     (case spec_join env carried (Path u) of
        Inl err \<Rightarrow> (Some (CannotJoinPrefixUpdate err), t)
      | Inr a \<Rightarrow> spec_set env schema subject psp ief a (Val u) t)"

text \<open>
  Addressing the subject: the prefix is resolved against the root with get-or-create; when
  that fails, the root is the subject and the prefix is carried to every operation.
\<close>

definition spec_subject :: "('t, 'n, 'e, 'i, 'tv, 'o) ytypes_env \<Rightarrow> ('n, 'e) Schema
    \<Rightarrow> Path option \<Rightarrow> bool \<Rightarrow> 't \<Rightarrow> ('n \<times> string \<times> Path option) \<times> 't" where
  "spec_subject env schema reqprefix preferShadowPath t =
     (case GetOrCreateNode env (RootSchema schema) (Root schema) reqprefix
             (spec_pathOpts preferShadowPath) t of
        (Inr nodeI, t') \<Rightarrow>
          (case asGoStruct env nodeI of
             Some node \<Rightarrow> ((node, typeName env node, None), t')
           | None \<Rightarrow> ((Root schema, typeName env (Root schema), reqprefix), t'))
      | (Inl err, t') \<Rightarrow> ((Root schema, typeName env (Root schema), reqprefix), t'))"

definition spec_applyRequest :: "('t, 'n, 'e, 'i, 'tv, 'o) ytypes_env \<Rightarrow> ('n, 'e) Schema
    \<Rightarrow> 'o list \<Rightarrow> 'tv SetRequest \<Rightarrow> 't \<Rightarrow> ytypes_error option \<times> 't" where
  "spec_applyRequest env schema opts r t =
     (case spec_subject env schema (reqPrefix r) (hasPreferShadowPath env opts) t of
        ((subject, name, carried), t0) \<Rightarrow>
          spec_runOps
            (spec_applyOp env (SchemaTree schema name) subject carried
               (hasPreferShadowPath env opts) (hasIgnoreExtraFields env opts))
            (spec_requestOps r) t0)"

text \<open>
  A notification is applied as the request with its prefix, its deletes and its updates;
  for an atomic notification the deletes include, after its own, the delete of the empty
  address.
\<close>

definition spec_notificationRequest :: "'tv Notification \<Rightarrow> 'tv SetRequest" where
  "spec_notificationRequest n =
     \<lparr>reqPrefix = Prefix n,
      reqDelete = Delete n @ (if Atomic n then [\<lparr>Elem = []\<rparr>] else []),
      reqReplace = [], reqUpdate = Update n\<rparr>"

definition spec_applyNotification :: "('t, 'n, 'e, 'i, 'tv, 'o) ytypes_env \<Rightarrow> ('n, 'e) Schema
    \<Rightarrow> 'o list \<Rightarrow> 'tv Notification \<Rightarrow> 't \<Rightarrow> ytypes_error option \<times> 't" where
  "spec_applyNotification env schema opts n t =
     spec_applyRequest env schema opts (spec_notificationRequest n) t"

section \<open>An instance of the environment\<close>

text \<open>
  The properties below hold for every environment. To evaluate the functions on concrete
  inputs, this instance takes a struct to be the sequence of its nodes in the order of the
  walk, together with the name of its type; the key map of a list entry is an association
  list of strings, leaf values are integers that encode as themselves and are deeply equal
  when they are equal, the string of a path is made of the names of its elements, and every
  range over a map visits the entries in the order of their insertion.
\<close>

definition pathNames :: "Path \<Rightarrow> string" where
  "pathNames p = concat (map (\<lambda>e. CHR ''/'' # Name e) (Elem p))"

definition listed_env :: "(string \<times> ((string \<times> string) list, int) NodeInfo list,
    (string \<times> string) list, (string \<times> string) list, int, int) ygot_env" where
  "listed_env =
     \<lparr>TypeOf = fst,
      ForEachDataField = snd,
      ListKeyMap = Inr,
      keyMapAsStrings = (\<lambda>keys. Inr (fmap_of_list keys)),
      PathToString = (\<lambda>p. Inr (pathNames p)),
      EncodeTypedValue = Inr,
      DeepEqual = (=),
      rangeOrder = (\<lambda>site i. i)\<rparr>"

definition leafField :: "string list list \<Rightarrow> StructField" where
  "leafField paths =
     \<lparr>fieldName = ''F'', IsYgotAnnotation = False, ShadowSchemaPaths = [], SchemaPaths = Inr paths\<rparr>"

definition leafValue :: "'v \<Rightarrow> ((string \<times> string) list, 'v) FieldValue" where
  "leafValue v =
     \<lparr>IsNilOrInvalidValue = False, IsValueNilOrDefault = False, IsValueStructPtr = False,
      IsValueMap = False, KeyHelperGoStruct = None, Interface = v, GoEnum = None\<rparr>"

definition entryValue :: "(string \<times> string) list \<Rightarrow> ((string \<times> string) list, int) FieldValue" where
  "entryValue keys =
     \<lparr>IsNilOrInvalidValue = False, IsValueNilOrDefault = False, IsValueStructPtr = True,
      IsValueMap = False, KeyHelperGoStruct = Some keys, Interface = 0, GoEnum = None\<rparr>"

definition rootLeaf :: "nat \<Rightarrow> string list list \<Rightarrow> 'v \<Rightarrow> ((string \<times> string) list, 'v) NodeInfo" where
  "rootLeaf a paths v =
     \<lparr>nid = a, Parent = None, StructField = Some (leafField paths), FieldValue = leafValue v\<rparr>"

text \<open>A schema in which the path of every entry is \<^verbatim>\<open>/m/x/y/z\<close>, and the store without annotations.\<close>

definition pathOfEntry :: "unit \<Rightarrow> string" where
  "pathOfEntry c = ''/m/x/y/z''"

definition noAnnotation :: annotations where
  "noAnnotation = (\<lambda>_. None)"

text \<open>Two structs of one type, with leaves at the root.\<close>

definition originalFoo :: "string \<times> ((string \<times> string) list, int) NodeInfo list" where
  "originalFoo = (''Foo'', [rootLeaf 1 [[''a'']] 1, rootLeaf 2 [[''c'']] 3])"

definition modifiedFoo :: "string \<times> ((string \<times> string) list, int) NodeInfo list" where
  "modifiedFoo = (''Foo'', [rootLeaf 1 [[''a'']] 2, rootLeaf 3 [[''b'']] 5])"

definition namedPath :: "string \<Rightarrow> Path" where
  "namedPath name = \<lparr>Elem = [\<lparr>Name = name, Key = fmempty\<rparr>]\<rparr>"

text \<open>The notification expected for these two structs.\<close>

definition diffFoo :: "int Notification" where
  "diffFoo =
     \<lparr>Prefix = None,
      Update = [\<lparr>Path = namedPath ''a'', Val = 2\<rparr>, \<lparr>Path = namedPath ''b'', Val = 5\<rparr>],
      Delete = [namedPath ''c''], Atomic = False\<rparr>"

text \<open>
  A union leaf holds an integer or, by value, the floating-point NaN, which
  \<^verbatim>\<open>reflect.DeepEqual\<close> does not find equal to itself. The second instance has such leaves.
\<close>

datatype unionValue = Int64Value int | Float64NaN

definition deepEqualUnion :: "unionValue \<Rightarrow> unionValue \<Rightarrow> bool" where
  "deepEqualUnion a b \<longleftrightarrow> a = b \<and> a \<noteq> Float64NaN"

definition union_env :: "(string \<times> ((string \<times> string) list, unionValue) NodeInfo list,
    (string \<times> string) list, (string \<times> string) list, unionValue, unionValue) ygot_env" where
  "union_env =
     \<lparr>TypeOf = fst,
      ForEachDataField = snd,
      ListKeyMap = Inr,
      keyMapAsStrings = (\<lambda>keys. Inr (fmap_of_list keys)),
      PathToString = (\<lambda>p. Inr (pathNames p)),
      EncodeTypedValue = Inr,
      DeepEqual = deepEqualUnion,
      rangeOrder = (\<lambda>site i. i)\<rparr>"

definition nanFoo :: "string \<times> ((string \<times> string) list, unionValue) NodeInfo list" where
  "nanFoo = (''Foo'', [rootLeaf 1 [[''u'']] Float64NaN])"

text \<open>
  The third instance is the first one, except that the range over the leaves of the modified
  struct visits two leaves in the other order. The struct has two leaves that share the
  path \<^verbatim>\<open>/a\<close>.
\<close>

definition swapRank :: "nat \<Rightarrow> nat" where
  "swapRank i = 1 - i"

definition swapped_env :: "(string \<times> ((string \<times> string) list, int) NodeInfo list,
    (string \<times> string) list, (string \<times> string) list, int, int) ygot_env" where
  "swapped_env =
     \<lparr>TypeOf = fst,
      ForEachDataField = snd,
      ListKeyMap = Inr,
      keyMapAsStrings = (\<lambda>keys. Inr (fmap_of_list keys)),
      PathToString = (\<lambda>p. Inr (pathNames p)),
      EncodeTypedValue = Inr,
      DeepEqual = (=),
      rangeOrder = (\<lambda>site. case site of ModLeaves \<Rightarrow> swapRank | _ \<Rightarrow> (\<lambda>i. i))\<rparr>"

definition sharedFoo :: "string \<times> ((string \<times> string) list, int) NodeInfo list" where
  "sharedFoo = (''Foo'', [rootLeaf 1 [[''a'']] 1, rootLeaf 2 [[''a''], [''b'']] 2])"

section \<open>An instance of the node operations\<close>

text \<open>
  A tree is the association list of its leaves, from the names along their address to an
  integer; a node is the list of names that leads to it. An address is under another when it
  starts with it.
\<close>

definition names :: "Path \<Rightarrow> string list" where
  "names p = map Name (Elem p)"

definition under :: "string list \<Rightarrow> string list \<Rightarrow> bool" where
  "under a b \<longleftrightarrow> take (length a) b = a"

text \<open>
  Modelled from the spec: the node operations \<^verbatim>\<open>GetOrCreateNode\<close>, \<^verbatim>\<open>DeleteNode\<close> and
  \<^verbatim>\<open>SetNode\<close> of package ytypes and \<^verbatim>\<open>util.JoinPaths\<close>, which are defined outside the files
  verified here. A delete removes the addressed subtree, that is every leaf under the
  address, and everything under the subject when the address is empty; a set stores the value
  at the address; a join concatenates. A field that does not exist (an element named
  \<^verbatim>\<open>unknown\<close>) makes a delete or a set fail, and no node can be got or created at a
  location that schema compression has elided (an element named \<^verbatim>\<open>elided\<close>).
\<close>

definition leaves_env :: "((string list \<times> int) list, string list, unit, string list, int, unit) ytypes_env" where
  "leaves_env =
     \<lparr>hasPreferShadowPath = (\<lambda>opts. False),
      hasIgnoreExtraFields = (\<lambda>opts. False),
      GetOrCreateNode = (\<lambda>schema goStruct p gcopts t.
         case p of
           None \<Rightarrow> (Inr goStruct, t)
         | Some q \<Rightarrow> if ''elided'' \<in> set (names q) then (Inl ''no such node'', t)
                      else (Inr (goStruct @ names q), t)),
      asGoStruct = Some,
      typeName = (\<lambda>node. ''Device''),
      DeleteNode = (\<lambda>schema goStruct p dopts t.
         if ''unknown'' \<in> set (names p) then (Some ''no such field'', t)
         else (None, filter (\<lambda>(a, v). \<not> under (goStruct @ names p) a) t)),
      SetNode = (\<lambda>schema goStruct p v sopts t.
         if ''unknown'' \<in> set (names p) then (Some ''no such field'', t)
         else (None, AList.update (goStruct @ names p) v t)),
      JoinPaths = (\<lambda>a b. Inr \<lparr>Elem = Elem a @ Elem b\<rparr>)\<rparr>"









section \<open>Properties of \<open>pathSpec.Equal\<close>\<close>

lemma foundIn_iff: "foundIn path others \<longleftrightarrow> path \<in> set others"
  by (induction others) auto

lemma allFound_iff: "allFound ps others \<longleftrightarrow> set ps \<subseteq> set others"
  by (induction ps) (auto simp: foundIn_iff)

lemma pathSpec_Equal_is_inclusion:
  "pathSpec_Equal (Some p) (Some q) \<longleftrightarrow>
     set (rangeOf (gNMIPaths p)) \<subseteq> set (rangeOf (gNMIPaths q))"
  by (simp add: pathSpec_Equal_def allFound_iff)

text \<open>
  Claim C2. Equality of two non-nil pathSpecs is meant to be equality of their sets of gNMI
  paths, hence symmetric. The code only checks that every path of the receiver occurs in the
  argument. For the receiver \<open>{/a}\<close> and the argument \<open>{/a, /b}\<close> it answers true although the
  two sets differ, and it answers false with the two swapped.
\<close>

theorem pathSpec_Equal_subset_accepted:
  "pathSpec_Equal
     (Some \<lparr>gNMIPaths = Some [\<lparr>Elem = [\<lparr>Name = ''a'', Key = fmempty\<rparr>]\<rparr>]\<rparr>)
     (Some \<lparr>gNMIPaths = Some [\<lparr>Elem = [\<lparr>Name = ''a'', Key = fmempty\<rparr>]\<rparr>,
                              \<lparr>Elem = [\<lparr>Name = ''b'', Key = fmempty\<rparr>]\<rparr>]\<rparr>)
   \<and> set [\<lparr>Elem = [\<lparr>Name = ''a'', Key = fmempty\<rparr>]\<rparr>]
       \<noteq> set [\<lparr>Elem = [\<lparr>Name = ''a'', Key = fmempty\<rparr>]\<rparr>, \<lparr>Elem = [\<lparr>Name = ''b'', Key = fmempty\<rparr>]\<rparr>]
   \<and> \<not> pathSpec_Equal
     (Some \<lparr>gNMIPaths = Some [\<lparr>Elem = [\<lparr>Name = ''a'', Key = fmempty\<rparr>]\<rparr>,
                              \<lparr>Elem = [\<lparr>Name = ''b'', Key = fmempty\<rparr>]\<rparr>]\<rparr>)
     (Some \<lparr>gNMIPaths = Some [\<lparr>Elem = [\<lparr>Name = ''a'', Key = fmempty\<rparr>]\<rparr>]\<rparr>)"
  by (simp add: pathSpec_Equal_def)

section \<open>Properties of leafref path resolution\<close>

lemma relativeLoop_eq:
  "relativeLoop path callerPath remainingPath parts =
     (if length callerPath < length (filter (\<lambda>p. p = ''..'') parts) then Inl (RecurseAboveRoot path)
      else Inr (take (length callerPath - length (filter (\<lambda>p. p = ''..'') parts)) callerPath
                @ remainingPath @ filter (\<lambda>p. p \<noteq> ''..'') parts))"
proof (induction parts arbitrary: callerPath remainingPath)
  case Nil
  then show ?case by simp
next
  case (Cons p parts)
  show ?case
  proof (cases "p = ''..''")
    case True
    show ?thesis
    proof (cases callerPath rule: rev_cases)
      case Nil
      with True show ?thesis by simp
    next
      case (snoc ys y)
      with True Cons.IH [of ys remainingPath] show ?thesis by auto
    qed
  next
    case False
    with Cons.IH [of callerPath "remainingPath @ [p]"] show ?thesis by simp
  qed
qed

text \<open>
  When every \<^verbatim>\<open>..\<close> token of the path is a leading one, the loop does what the
  specification says: it walks up once for each of them and appends the remaining tokens.
\<close>

lemma relativeLoop_leading_only:
  assumes "''..'' \<notin> set rest"
  shows "relativeLoop path callerPath [] (replicate k ''..'' @ rest) =
     (case spec_relativePath callerPath (replicate k ''..'' @ rest) of
        None \<Rightarrow> Inl (RecurseAboveRoot path)
      | Some r \<Rightarrow> Inr r)"
proof -
  have f: "filter (\<lambda>p. p = ''..'') rest = []"
    using assms by (induction rest) auto
  have g: "filter (\<lambda>p. p \<noteq> ''..'') rest = rest"
    using assms by (induction rest) auto
  have t: "takeWhile (\<lambda>p. p = ''..'') rest = []"
    using assms by (cases rest) auto
  have d: "dropWhile (\<lambda>p. p = ''..'') rest = rest"
    using assms by (cases rest) auto
  have tw: "takeWhile (\<lambda>p. p = ''..'') (replicate k ''..'' @ rest) = replicate k ''..''"
    using t by (induction k) simp_all
  have dw: "dropWhile (\<lambda>p. p = ''..'') (replicate k ''..'' @ rest) = rest"
    using d by (induction k) simp_all
  show ?thesis
    by (simp add: relativeLoop_eq spec_relativePath_def Let_def f g tw dw)
qed

lemma filter_dotdot_leading:
  assumes "''..'' \<notin> set rest"
  shows "filter (\<lambda>p. p = ''..'') (replicate k ''..'' @ rest) = replicate k ''..''"
    and "filter (\<lambda>p. p \<noteq> ''..'') (replicate k ''..'' @ rest) = rest"
proof -
  have f: "filter (\<lambda>p. p = ''..'') rest = []"
    using assms by (induction rest) auto
  have g: "filter (\<lambda>p. p \<noteq> ''..'') rest = rest"
    using assms by (induction rest) auto
  show "filter (\<lambda>p. p = ''..'') (replicate k ''..'' @ rest) = replicate k ''..''"
    using f by (induction k) simp_all
  show "filter (\<lambda>p. p \<noteq> ''..'') (replicate k ''..'' @ rest) = rest"
    using g by (induction k) simp_all
qed

text \<open>
  The result of \<^verbatim>\<open>fixSchemaTreePath\<close> for any tokens whose first one is not empty.
\<close>

lemma fixSchemaTreePath_relative_eq:
  assumes "removeXPATHNamespaces (splitXPATHParts path) = Inr (p0 # rest)"
    and "p0 \<noteq> []"
  shows "fixSchemaTreePath SchemaTreePath path caller =
     (if p0 \<noteq> ''..'' then Inl (PathMustBeginWithDotDotOrSlash path)
      else case caller of
        None \<Rightarrow> Inl (CallingNodeMustBeSpecified (p0 # rest))
      | Some c \<Rightarrow>
          (let cpathparts = splitOn CHR ''/'' (SchemaTreePath c);
               callerPath = drop 2 cpathparts;
               up = length (filter (\<lambda>p. p = ''..'') (p0 # rest))
           in if length cpathparts < 2 then Inl (InvalidCallingNodeWasModule path)
              else if length callerPath < up then Inl (RecurseAboveRoot path)
              else Inr (take (length callerPath - up) callerPath
                        @ filter (\<lambda>p. p \<noteq> ''..'') (p0 # rest))))"
  using assms
  by (simp add: fixSchemaTreePath_def relativeLoop_eq Let_def split: option.splits)

text \<open>
  Claim C6. A leafref path is absolute or consists of one or more \<^verbatim>\<open>..\<close> tokens followed by
  node names (RFC 7950: relative-path = 1*("../") descendant-path): its tokens are \<open>k\<close> times
  \<^verbatim>\<open>..\<close> and then tokens \<open>rest\<close> other than \<^verbatim>\<open>..\<close>. When the first token is not empty and is not
  \<^verbatim>\<open>..\<close>, resolution is an error. Otherwise a nil context entry is an error; the context path
  loses its first two parts (the empty one and the module) and then one trailing segment for
  each of the \<open>k\<close> leading \<^verbatim>\<open>..\<close> tokens, which is an error when it has fewer than \<open>k\<close>
  segments, as a module root always has; and the remaining tokens are appended to what is
  left of the context path.
\<close>

theorem fixSchemaTreePath_leafref:
  assumes "removeXPATHNamespaces (splitXPATHParts path) = Inr parts"
    and "parts = replicate k ''..'' @ rest"
    and "''..'' \<notin> set rest"
    and "parts \<noteq> []"
    and "hd parts \<noteq> []"
  shows "fixSchemaTreePath SchemaTreePath path caller =
     (if hd parts \<noteq> ''..'' then Inl (PathMustBeginWithDotDotOrSlash path)
      else case caller of
        None \<Rightarrow> Inl (CallingNodeMustBeSpecified parts)
      | Some c \<Rightarrow>
          (let cpathparts = splitOn CHR ''/'' (SchemaTreePath c);
               callerPath = drop 2 cpathparts
           in if length cpathparts < 2 then Inl (InvalidCallingNodeWasModule path)
              else if length callerPath < k then Inl (RecurseAboveRoot path)
              else Inr (take (length callerPath - k) callerPath @ rest)))"
proof -
  from assms(4) obtain p0 ps where parts: "parts = p0 # ps" by (cases parts) auto
  with assms(5) have p0: "p0 \<noteq> []" by simp
  have up: "length (filter (\<lambda>p. p = ''..'') (p0 # ps)) = k"
    using filter_dotdot_leading(1) [OF assms(3), of k] assms(2) parts by simp
  have remaining: "filter (\<lambda>p. p \<noteq> ''..'') (p0 # ps) = rest"
    using filter_dotdot_leading(2) [OF assms(3), of k] assms(2) parts by simp
  from assms(1) parts have "removeXPATHNamespaces (splitXPATHParts path) = Inr (p0 # ps)"
    by simp
  note eq = fixSchemaTreePath_relative_eq [OF this p0, of SchemaTreePath caller,
      unfolded up remaining]
  show ?thesis unfolding eq by (simp add: parts Let_def split: option.splits)
qed

theorem fixSchemaTreePath_leafref_witness:
  "removeXPATHNamespaces (splitXPATHParts ''../../oc:c/d[k=1]/e'')
     = Inr [''..'', ''..'', ''c'', ''d'', ''e'']
   \<and> [''..'', ''..'', ''c'', ''d'', ''e''] = replicate (Suc (Suc 0)) ''..'' @ [''c'', ''d'', ''e'']
   \<and> ''..'' \<notin> set [''c'', ''d'', ''e'']
   \<and> [''..'', ''..'', ''c'', ''d'', ''e''] \<noteq> []
   \<and> hd [''..'', ''..'', ''c'', ''d'', ''e''] \<noteq> []
   \<and> fixSchemaTreePath pathOfEntry ''../../oc:c/d[k=1]/e'' (Some ())
       = Inr [''x'', ''c'', ''d'', ''e'']"
proof -
  have 1: "removeXPATHNamespaces (splitXPATHParts ''../../oc:c/d[k=1]/e'')
             = Inr [''..'', ''..'', ''c'', ''d'', ''e'']"
    by (simp add: splitXPATHParts_def)
  have 2: "[''..'', ''..'', ''c'', ''d'', ''e'']
             = replicate (Suc (Suc 0)) ''..'' @ [''c'', ''d'', ''e'']"
    by simp
  have 3: "''..'' \<notin> set [''c'', ''d'', ''e'']" by simp
  have 4: "[''..'', ''..'', ''c'', ''d'', ''e''] \<noteq> []" by simp
  have 5: "hd [''..'', ''..'', ''c'', ''d'', ''e''] \<noteq> []" by simp
  from fixSchemaTreePath_leafref [OF 1 2 3 4 5, of pathOfEntry "Some ()"]
  have "fixSchemaTreePath pathOfEntry ''../../oc:c/d[k=1]/e'' (Some ())
       = Inr [''x'', ''c'', ''d'', ''e'']"
    by (simp add: pathOfEntry_def)
  with 1 2 3 4 5 show ?thesis by blast
qed

text \<open>
  A context entry that is a module root has no segment below the module: every relative
  leafref path is an error there.
\<close>

lemma fixSchemaTreePath_module_root:
  assumes "removeXPATHNamespaces (splitXPATHParts path) = Inr (''..'' # ps)"
    and "length (splitOn CHR ''/'' (SchemaTreePath c)) \<le> 2"
  shows "\<exists>err. fixSchemaTreePath SchemaTreePath path (Some c) = Inl err"
  using assms
  by (simp add: fixSchemaTreePath_def relativeLoop_eq Let_def)

text \<open>
  A path with a \<^verbatim>\<open>..\<close> token after a node name is not a leafref path. The loop walks up for
  such a token as well: from the context \<^verbatim>\<open>/m/x/y/z\<close>, it takes \<^verbatim>\<open>../a/../b\<close> to \<^verbatim>\<open>x/a/b\<close>.
\<close>

lemma fixSchemaTreePath_inner_dotdot:
  "fixSchemaTreePath pathOfEntry ''../a/../b'' (Some ()) = Inr [''x'', ''a'', ''b'']"
  by (simp add: fixSchemaTreePath_def splitXPATHParts_def pathOfEntry_def)

section \<open>Properties of the path algebra\<close>

lemma setLastKey_last:
  "Elem p \<noteq> [] \<Longrightarrow>
     setLastKey strkeys p = p\<lparr>Elem := butlast (Elem p) @ [(last (Elem p))\<lparr>Key := strkeys\<rparr>]\<rparr>"
proof -
  assume "Elem p \<noteq> []"
  then obtain es e where "Elem p = es @ [e]"
    by (cases "Elem p" rule: rev_cases) auto
  then show ?thesis
    by (simp add: setLastKey_def)
qed

lemma nodeMapPathLoop_eq:
  "nodeMapPathLoop strkeys gPaths ps =
     (if \<exists>p\<in>set ps. Elem p = [] then Inl ElemIndexOutOfRange
      else Inr \<lparr>gNMIPaths = Some (gPaths @ map (setLastKey strkeys) ps)\<rparr>)"
  by (induction ps arbitrary: gPaths) auto

text \<open>
  Claim C7, as the specification states it, fails: the code appends no path element. The
  address of the collection field already ends with the list name, and the keys are stored in
  that last element. For the list field at \<^verbatim>\<open>/yang-list\<close> and an entry with key
  \<^verbatim>\<open>key-value = v\<close>, the code gives \<^verbatim>\<open>/yang-list[key-value=v]\<close>, one element, where appending
  an element gives two.
\<close>

theorem nodeValuePath_no_append:
  "nodeValuePath listed_env
      (noAnnotation(0 \<mapsto> [PathSpecAnn (Some \<lparr>gNMIPaths = Some [\<lparr>Elem = [\<lparr>Name = ''yang-list'', Key = fmempty\<rparr>]\<rparr>]\<rparr>)]))
      \<lparr>nid = 1, Parent = Some 0, StructField = Some (leafField [[''yang-list'']]),
       FieldValue = entryValue [(''key-value'', ''v'')]\<rparr>
      [[''yang-list'']]
     = Inr \<lparr>gNMIPaths = Some [\<lparr>Elem = [\<lparr>Name = ''yang-list'',
                                          Key = fmap_of_list [(''key-value'', ''v'')]\<rparr>]\<rparr>]\<rparr>
   \<and> spec_listEntryPaths ''yang-list'' (fmap_of_list [(''key-value'', ''v'')])
        [\<lparr>Elem = [\<lparr>Name = ''yang-list'', Key = fmempty\<rparr>]\<rparr>]
     = [\<lparr>Elem = [\<lparr>Name = ''yang-list'', Key = fmempty\<rparr>,
                 \<lparr>Name = ''yang-list'', Key = fmap_of_list [(''key-value'', ''v'')]\<rparr>]\<rparr>]
   \<and> [\<lparr>Elem = [\<lparr>Name = ''yang-list'', Key = fmap_of_list [(''key-value'', ''v'')]\<rparr>]\<rparr>]
     \<noteq> spec_listEntryPaths ''yang-list'' (fmap_of_list [(''key-value'', ''v'')])
        [\<lparr>Elem = [\<lparr>Name = ''yang-list'', Key = fmempty\<rparr>]\<rparr>]"
  by (simp add: nodeValuePath_def parentAnnotation_def nodeMapPath_def listed_env_def
      entryValue_def setLastKey_def spec_listEntryPaths_def)

text \<open>
  Claim C7, amended. For a list entry whose parent node is annotated with the path
  specification of the collection field, the path specification of the entry has one address
  for each address of the collection field: that address with the key of its last element
  (the one that carries the list name) set to the keys of the entry, converted to strings. If
  the keys cannot be obtained or cannot be converted, the result is an error; an address
  without elements makes the code panic.
\<close>

theorem nodeValuePath_list_entry:
  assumes "parentAnnotation ann ni = Some a"
    and "getPathSpec a = Inr (Some \<lparr>gNMIPaths = Some ps\<rparr>)"
    and "KeyHelperGoStruct (FieldValue ni) = Some l"
  shows "nodeValuePath env ann ni schemaPaths =
     (case ListKeyMap env l of
        Inl err \<Rightarrow> Inl (ListKeyMapFailed err)
      | Inr keys \<Rightarrow>
          (case keyMapAsStrings env keys of
             Inl err \<Rightarrow> Inl (CannotConvertKeys err)
           | Inr strkeys \<Rightarrow>
               if list_ex (\<lambda>p. Elem p = []) ps then Inl ElemIndexOutOfRange
               else Inr \<lparr>gNMIPaths = Some (map (\<lambda>p. p\<lparr>Elem := butlast (Elem p)
                                                        @ [(last (Elem p))\<lparr>Key := strkeys\<rparr>]\<rparr>) ps)\<rparr>))"
proof -
  have "map (setLastKey strkeys) ps
        = map (\<lambda>p. p\<lparr>Elem := butlast (Elem p) @ [(last (Elem p))\<lparr>Key := strkeys\<rparr>]\<rparr>) ps"
    if "\<not> list_ex (\<lambda>p. Elem p = []) ps" for strkeys
    using that by (auto simp: list_ex_iff setLastKey_last)
  then show ?thesis
    using assms
    by (auto simp: nodeValuePath_def nodeMapPath_def nodeMapPathLoop_eq list_ex_iff
        split: sum.splits)
qed

theorem nodeValuePath_list_entry_witness:
  "nodeValuePath listed_env
      (noAnnotation(0 \<mapsto> [PathSpecAnn (Some \<lparr>gNMIPaths = Some
          [\<lparr>Elem = [\<lparr>Name = ''a'', Key = fmempty\<rparr>, \<lparr>Name = ''yang-list'', Key = fmempty\<rparr>]\<rparr>]\<rparr>)]))
      \<lparr>nid = 1, Parent = Some 0, StructField = Some (leafField [[''yang-list'']]),
       FieldValue = entryValue [(''key-value'', ''v'')]\<rparr>
      [[''yang-list'']]
     = Inr \<lparr>gNMIPaths = Some [\<lparr>Elem = [\<lparr>Name = ''a'', Key = fmempty\<rparr>,
          \<lparr>Name = ''yang-list'', Key = fmap_of_list [(''key-value'', ''v'')]\<rparr>]\<rparr>]\<rparr>"
proof -
  let ?ann = "noAnnotation(0 \<mapsto> [PathSpecAnn (Some \<lparr>gNMIPaths = Some
          [\<lparr>Elem = [\<lparr>Name = ''a'', Key = fmempty\<rparr>, \<lparr>Name = ''yang-list'', Key = fmempty\<rparr>]\<rparr>]\<rparr>)])"
  let ?ni = "\<lparr>nid = 1, Parent = Some 0, StructField = Some (leafField [[''yang-list'']]),
       FieldValue = entryValue [(''key-value'', ''v'')]\<rparr>"
  have 1: "parentAnnotation ?ann ?ni = Some [PathSpecAnn (Some \<lparr>gNMIPaths = Some
          [\<lparr>Elem = [\<lparr>Name = ''a'', Key = fmempty\<rparr>, \<lparr>Name = ''yang-list'', Key = fmempty\<rparr>]\<rparr>]\<rparr>)]"
    by (simp add: parentAnnotation_def)
  have 2: "getPathSpec [PathSpecAnn (Some \<lparr>gNMIPaths = Some
          [\<lparr>Elem = [\<lparr>Name = ''a'', Key = fmempty\<rparr>, \<lparr>Name = ''yang-list'', Key = fmempty\<rparr>]\<rparr>]\<rparr>)]
        = Inr (Some \<lparr>gNMIPaths = Some
          [\<lparr>Elem = [\<lparr>Name = ''a'', Key = fmempty\<rparr>, \<lparr>Name = ''yang-list'', Key = fmempty\<rparr>]\<rparr>]\<rparr>)"
    by simp
  have 3: "KeyHelperGoStruct (FieldValue ?ni) = Some [(''key-value'', ''v'')]"
    by (simp add: entryValue_def)
  show ?thesis
    using nodeValuePath_list_entry [OF 1 2 3, of listed_env "[[''yang-list'']]"]
    by (simp add: listed_env_def)
qed

section \<open>Properties of single-path mode\<close>

lemma leastSpecificLoop_Some:
  "\<exists>r. leastSpecificLoop (Some q) ps = Some r \<and> firstShortest (q # ps) r"
proof (induction ps arbitrary: q)
  case Nil
  have "firstShortest [q] q"
    unfolding firstShortest_def by (rule exI [of _ "[]"], rule exI [of _ "[]"]) simp
  then show ?case by simp
next
  case (Cons p ps)
  show ?case
  proof (cases "length p < length q")
    case True
    from Cons.IH [of p] obtain r pre post where
      r: "leastSpecificLoop (Some p) ps = Some r" and
      d: "p # ps = pre @ r # post" and
      b: "\<forall>x\<in>set pre. length r < length x" and
      a: "\<forall>x\<in>set post. length r \<le> length x"
      unfolding firstShortest_def by blast
    have "p \<in> set (pre @ r # post)" using d by (metis list.set_intros(1))
    then have "length r \<le> length p" using a b by auto
    with True have "length r < length q" by simp
    with b have b': "\<forall>x\<in>set (q # pre). length r < length x" by simp
    have "q # p # ps = (q # pre) @ r # post" using d by simp
    with b' a have "firstShortest (q # p # ps) r"
      unfolding firstShortest_def by blast
    with r True show ?thesis by simp
  next
    case False
    from Cons.IH [of q] obtain r pre post where
      r: "leastSpecificLoop (Some q) ps = Some r" and
      d: "q # ps = pre @ r # post" and
      b: "\<forall>x\<in>set pre. length r < length x" and
      a: "\<forall>x\<in>set post. length r \<le> length x"
      unfolding firstShortest_def by blast
    have "firstShortest (q # p # ps) r"
    proof (cases pre)
      case Nil
      with d have "r = q" "post = ps" by simp_all
      with a False have "\<forall>x\<in>set (p # ps). length r \<le> length x" by simp
      moreover have "q # p # ps = [] @ r # (p # ps)" using \<open>r = q\<close> by simp
      ultimately show ?thesis
        unfolding firstShortest_def by (metis empty_iff empty_set)
    next
      case (Cons q' pre')
      with d have q': "q' = q" and ps: "ps = pre' @ r # post" by simp_all
      from b Cons q' have "length r < length q" by simp
      with False have "length r < length p" by simp
      with b Cons q' have "\<forall>x\<in>set (q # p # pre'). length r < length x" by simp
      moreover have "q # p # ps = (q # p # pre') @ r # post" using ps by simp
      ultimately show ?thesis
        using a unfolding firstShortest_def by blast
    qed
    with r False show ?thesis by simp
  qed
qed

lemma leastSpecificPath_firstShortest:
  assumes "sp \<noteq> []"
  shows "\<exists>r. leastSpecificPath sp = Some r \<and> firstShortest sp r"
proof -
  from assms obtain q ps where sp: "sp = q # ps" by (cases sp) auto
  have "leastSpecificPath sp = leastSpecificLoop (Some q) ps"
    by (simp add: leastSpecificPath_def sp)
  with leastSpecificLoop_Some [of q ps] sp show ?thesis by simp
qed

lemma declaredPaths_nonempty: "declaredPaths pathOpt sf = Inr sp \<Longrightarrow> sp \<noteq> []"
  by (auto simp: declaredPaths_def Let_def split: option.splits if_splits sum.splits)

lemma singlePath_firstShortest:
  assumes "MapToSinglePath po" and "sp \<noteq> []"
  shows "\<exists>r. singlePath (Some po) sp = [r] \<and> firstShortest sp r"
  using assms leastSpecificPath_firstShortest [of sp]
  by (auto simp: singlePath_def)

lemma nodeValuePath_single:
  assumes "singleAddressStore ann" and "nodeValuePath env ann ni [r] = Inr vp"
  shows "\<exists>p. gNMIPaths vp = Some [p]
     \<and> (KeyHelperGoStruct (FieldValue ni) = None \<longrightarrow>
          (\<exists>up. Elem p = up @ Elem (schemaPathTogNMIPath r)))"
proof (cases "parentAnnotation ann ni")
  case None
  with assms(2) have "vp = nodeRootPath [r]"
    by (simp add: nodeValuePath_def)
  then show ?thesis
    by (simp add: nodeRootPath_def)
next
  case (Some as)
  then obtain a where "ann a = Some as"
    by (auto simp: parentAnnotation_def split: option.splits)
  with assms(1) obtain q where as: "as = [PathSpecAnn (Some \<lparr>gNMIPaths = Some [q]\<rparr>)]"
    unfolding singleAddressStore_def by blast
  show ?thesis
  proof (cases "KeyHelperGoStruct (FieldValue ni)")
    case None
    with assms(2) Some as have "vp = \<lparr>gNMIPaths = Some [joingNMIPaths q (schemaPathTogNMIPath r)]\<rparr>"
      by (simp add: nodeValuePath_def nodeChildPath_def)
    then show ?thesis
      by (simp add: joingNMIPaths_def)
  next
    case (Some l)
    with assms(2) \<open>parentAnnotation ann ni = Some as\<close> as show ?thesis
      by (auto simp: nodeValuePath_def nodeMapPath_def split: sum.splits if_splits)
  qed
qed

lemma findSetIterFunc_cases:
  "(Annotation (findSetIterFunc env pathOpt ni st) = Annotation st
      \<and> outs (findSetIterFunc env pathOpt ni st) = outs st)
   \<or> (\<exists>sf sp vp. StructField ni = Some sf \<and> declaredPaths pathOpt sf = Inr sp
        \<and> nodeValuePath env (Annotation st) ni (singlePath pathOpt sp) = Inr vp
        \<and> Annotation (findSetIterFunc env pathOpt ni st)
            = (Annotation st)(nid ni \<mapsto> [PathSpecAnn (Some vp)])
        \<and> (outs (findSetIterFunc env pathOpt ni st) = outs st
           \<or> outs (findSetIterFunc env pathOpt ni st) = outs st @ [(vp, Interface (FieldValue ni))]))"
  by (auto simp: findSetIterFunc_def Let_def split: option.splits sum.splits)

lemma findSetIterFunc_single:
  assumes po: "MapToSinglePath po"
    and ni: "ni \<in> set visited"
    and inv: "singleAddressStore (Annotation st)"
    and rec: "\<forall>(vp, v)\<in>set (outs st). recordedSingle po visited vp v"
  shows "singleAddressStore (Annotation (findSetIterFunc env (Some po) ni st))
     \<and> (\<forall>(vp, v)\<in>set (outs (findSetIterFunc env (Some po) ni st)). recordedSingle po visited vp v)"
proof -
  let ?st' = "findSetIterFunc env (Some po) ni st"
  from findSetIterFunc_cases [of env "Some po" ni st]
  consider (same) "Annotation ?st' = Annotation st" "outs ?st' = outs st"
    | (visit) sf sp vp where "StructField ni = Some sf" "declaredPaths (Some po) sf = Inr sp"
        "nodeValuePath env (Annotation st) ni (singlePath (Some po) sp) = Inr vp"
        "Annotation ?st' = (Annotation st)(nid ni \<mapsto> [PathSpecAnn (Some vp)])"
        "outs ?st' = outs st \<or> outs ?st' = outs st @ [(vp, Interface (FieldValue ni))]"
    by blast
  then show ?thesis
  proof cases
    case same
    with inv rec show ?thesis by simp
  next
    case visit
    from visit(2) have "sp \<noteq> []" by (rule declaredPaths_nonempty)
    with po obtain r where r: "singlePath (Some po) sp = [r]" "firstShortest sp r"
      using singlePath_firstShortest by blast
    with visit(3) inv obtain p where p: "gNMIPaths vp = Some [p]"
        "KeyHelperGoStruct (FieldValue ni) = None \<longrightarrow> (\<exists>up. Elem p = up @ Elem (schemaPathTogNMIPath r))"
      using nodeValuePath_single [of "Annotation st" env ni r vp] by auto
    from p(1) have vp: "vp = \<lparr>gNMIPaths = Some [p]\<rparr>" by (cases vp) simp
    have "singleAddressStore ((Annotation st)(nid ni \<mapsto> [PathSpecAnn (Some vp)]))"
      using inv vp unfolding singleAddressStore_def by auto
    with visit(4) have 1: "singleAddressStore (Annotation ?st')" by simp
    have "recordedSingle po visited vp (Interface (FieldValue ni))"
      unfolding recordedSingle_def using ni visit(1,2) r(2) p
      by (intro exI [of _ ni] exI [of _ sf] exI [of _ sp] exI [of _ r] exI [of _ p]) simp
    with rec visit(5) have 2: "\<forall>(vp, v)\<in>set (outs ?st'). recordedSingle po visited vp v"
      by auto
    from 1 2 show ?thesis by simp
  qed
qed

lemma fold_findSetIterFunc_single:
  assumes "MapToSinglePath po"
    and "set xs \<subseteq> set visited"
    and "singleAddressStore (Annotation st)"
    and "\<forall>(vp, v)\<in>set (outs st). recordedSingle po visited vp v"
  shows "\<forall>(vp, v)\<in>set (outs (fold (findSetIterFunc env (Some po)) xs st)).
           recordedSingle po visited vp v"
  using assms
proof (induction xs arbitrary: st)
  case Nil
  then show ?case by simp
next
  case (Cons x xs)
  from Cons.prems have x: "x \<in> set visited" and xs: "set xs \<subseteq> set visited" by simp_all
  from findSetIterFunc_single [OF Cons.prems(1) x Cons.prems(3,4), of env]
  have "singleAddressStore (Annotation (findSetIterFunc env (Some po) x st))"
    and "\<forall>(vp, v)\<in>set (outs (findSetIterFunc env (Some po) x st)). recordedSingle po visited vp v"
    by simp_all
  from Cons.IH [OF Cons.prems(1) xs this] show ?case by simp
qed

lemma firstShortest_spec:
  assumes "firstShortest sp r"
  shows "spec_leastSpecific sp = r"
proof -
  from assms obtain pre post where
    d: "sp = pre @ r # post" "\<forall>x\<in>set pre. length r < length x"
       "\<forall>x\<in>set post. length r \<le> length x"
    unfolding firstShortest_def by (elim exE conjE) (rule that)
  have least: "\<forall>y\<in>set sp. length r \<le> length y"
    using d by auto
  have "filter (\<lambda>x. \<forall>y\<in>set sp. length x \<le> length y) pre = []"
  proof -
    have "\<not> (\<forall>y\<in>set sp. length x \<le> length y)" if "x \<in> set pre" for x
    proof -
      have "r \<in> set sp" using d(1) by simp
      moreover have "\<not> length x \<le> length r" using d(2) that by auto
      ultimately show ?thesis by blast
    qed
    then show ?thesis by (simp add: filter_empty_conv)
  qed
  then have "filter (\<lambda>x. \<forall>y\<in>set sp. length x \<le> length y) sp
      = r # filter (\<lambda>x. \<forall>y\<in>set sp. length x \<le> length y) post"
    using least by (subst d(1), subst filter_append) (simp del: filter_append)
  then show ?thesis by (simp add: spec_leastSpecific_def)
qed

text \<open>
  Claim C8. In single-path mode, every leaf that the walk records stems from a visited field
  whose declared paths are not empty, and is recorded under exactly one address. The declared
  path chosen for it is the first one of the slice among those with the fewest elements, and
  the address ends with the elements of that path (for a list entry the address is the one of
  the collection field, with the keys set).
\<close>

theorem findSetLeaves_single_path:
  assumes "hasDiffPathOpt opts = Some po" and "MapToSinglePath po"
    and "findSetLeaves env s opts = Inr leaves" and "(vp, v) \<in> set leaves"
  shows "\<exists>ni sf sp p. ni \<in> set (ForEachDataField env s) \<and> StructField ni = Some sf
     \<and> declaredPaths (Some po) sf = Inr sp \<and> sp \<noteq> []
     \<and> singlePath (Some po) sp = [spec_leastSpecific sp]
     \<and> v = Interface (FieldValue ni)
     \<and> gNMIPaths vp = Some [p]
     \<and> (KeyHelperGoStruct (FieldValue ni) = None \<longrightarrow>
          (\<exists>up. Elem p = up @ map (\<lambda>pe. \<lparr>Name = pe, Key = fmempty\<rparr>) (spec_leastSpecific sp)))"
proof -
  let ?init = "\<lparr>processedPaths = {}, Annotation = (\<lambda>_. None), outs = [], errs = []\<rparr>"
  let ?st = "fold (findSetIterFunc env (Some po)) (ForEachDataField env s) ?init"
  have "singleAddressStore (Annotation ?init)"
    by (simp add: singleAddressStore_def)
  moreover have "\<forall>(vp, v)\<in>set (outs ?init). recordedSingle po (ForEachDataField env s) vp v"
    by simp
  ultimately have "\<forall>(vp, v)\<in>set (outs ?st). recordedSingle po (ForEachDataField env s) vp v"
    using fold_findSetIterFunc_single [OF assms(2) subset_refl] by blast
  moreover from assms(1,3) have "leaves = outs ?st"
    by (simp add: findSetLeaves_def Let_def split: if_splits)
  ultimately have "recordedSingle po (ForEachDataField env s) vp v"
    using assms(4) by auto
  then obtain ni sf sp r p where
    a: "ni \<in> set (ForEachDataField env s)" "StructField ni = Some sf"
       "declaredPaths (Some po) sf = Inr sp" "v = Interface (FieldValue ni)"
       "gNMIPaths vp = Some [p]"
       "KeyHelperGoStruct (FieldValue ni) = None \<longrightarrow> (\<exists>up. Elem p = up @ Elem (schemaPathTogNMIPath r))"
    and fs: "firstShortest sp r"
    unfolding recordedSingle_def by (elim exE conjE) (rule that)
  from fs have r: "spec_leastSpecific sp = r" by (rule firstShortest_spec)
  from a(3) have 1: "sp \<noteq> []" by (rule declaredPaths_nonempty)
  from singlePath_firstShortest [OF assms(2) 1] obtain r' where
    r': "singlePath (Some po) sp = [r']" "firstShortest sp r'" by blast
  from r'(2) have "spec_leastSpecific sp = r'" by (rule firstShortest_spec)
  with r'(1) have 2: "singlePath (Some po) sp = [spec_leastSpecific sp]" by simp
  from a(6) r have 3: "KeyHelperGoStruct (FieldValue ni) = None \<longrightarrow>
      (\<exists>up. Elem p = up @ map (\<lambda>pe. \<lparr>Name = pe, Key = fmempty\<rparr>) (spec_leastSpecific sp))"
    by (simp add: schemaPathTogNMIPath_def)
  from a(1-5) 1 2 3 show ?thesis
    by (intro exI [of _ ni] exI [of _ sf] exI [of _ sp] exI [of _ p]) simp
qed

theorem findSetLeaves_single_path_witness:
  "hasDiffPathOpt [DiffPathOptPtr (Some \<lparr>MapToSinglePath = True, PreferShadowPath = False\<rparr>)]
     = Some \<lparr>MapToSinglePath = True, PreferShadowPath = False\<rparr>
   \<and> MapToSinglePath \<lparr>MapToSinglePath = True, PreferShadowPath = False\<rparr>
   \<and> findSetLeaves listed_env
        (''Foo'', [rootLeaf 1 [[''config'', ''name''], [''name''], [''state'']] 7])
        [DiffPathOptPtr (Some \<lparr>MapToSinglePath = True, PreferShadowPath = False\<rparr>)]
      = Inr [(\<lparr>gNMIPaths = Some [\<lparr>Elem = [\<lparr>Name = ''name'', Key = fmempty\<rparr>]\<rparr>]\<rparr>, 7)]
   \<and> (\<exists>ni sf sp p.
         ni \<in> set (ForEachDataField listed_env
                (''Foo'', [rootLeaf 1 [[''config'', ''name''], [''name''], [''state'']] 7]))
       \<and> StructField ni = Some sf
       \<and> declaredPaths (Some \<lparr>MapToSinglePath = True, PreferShadowPath = False\<rparr>) sf = Inr sp
       \<and> sp \<noteq> []
       \<and> singlePath (Some \<lparr>MapToSinglePath = True, PreferShadowPath = False\<rparr>) sp
           = [spec_leastSpecific sp]
       \<and> 7 = Interface (FieldValue ni)
       \<and> gNMIPaths \<lparr>gNMIPaths = Some [\<lparr>Elem = [\<lparr>Name = ''name'', Key = fmempty\<rparr>]\<rparr>]\<rparr> = Some [p]
       \<and> (KeyHelperGoStruct (FieldValue ni) = None \<longrightarrow>
            (\<exists>up. Elem p = up @ map (\<lambda>pe. \<lparr>Name = pe, Key = fmempty\<rparr>) (spec_leastSpecific sp))))"
proof -
  let ?po = "\<lparr>MapToSinglePath = True, PreferShadowPath = False\<rparr>"
  let ?s = "(''Foo'', [rootLeaf 1 [[''config'', ''name''], [''name''], [''state'']] 7])"
  let ?vp = "\<lparr>gNMIPaths = Some [\<lparr>Elem = [\<lparr>Name = ''name'', Key = fmempty\<rparr>]\<rparr>]\<rparr>"
  have 1: "hasDiffPathOpt [DiffPathOptPtr (Some ?po)] = Some ?po" by simp
  have 2: "MapToSinglePath ?po" by simp
  have 3: "findSetLeaves listed_env ?s [DiffPathOptPtr (Some ?po)] = Inr [(?vp, 7)]"
    by (simp add: findSetLeaves_def findSetIterFunc_def declaredPaths_def singlePath_def
        leastSpecificPath_def nodeValuePath_def parentAnnotation_def nodeRootPath_def
        schemaPathTogNMIPath_def listed_env_def rootLeaf_def leafField_def leafValue_def
        pathNames_def Let_def)
  have 4: "(?vp, 7) \<in> set [(?vp, 7::int)]" by simp
  from findSetLeaves_single_path [OF 1 2 3 4] 1 2 3 show ?thesis by simp
qed

section \<open>Properties of Diff\<close>

text \<open>A range visits every entry of the map, whatever the rank.\<close>

lemma set_rangeBy [simp]: "set (rangeBy rank entries) = set entries"
  unfolding rangeBy_def by (metis map_snd_enumerate set_map set_sort)

lemma rangeBy_insertion [simp]: "rangeBy (\<lambda>i. i) entries = entries"
proof -
  have fst: "(\<lambda>(i, x). i) = (fst :: nat \<times> 'a \<Rightarrow> nat)" by auto
  have "sorted (map fst (enumerate 0 entries))" by simp
  then have "sort_key fst (enumerate 0 entries) = enumerate 0 entries"
    by (rule sort_key_id_if_sorted)
  then show ?thesis by (simp add: rangeBy_def fst)
qed

lemma toStringPathMapPaths_distinct:
  "distinct (map fst m) \<Longrightarrow> toStringPathMapPaths pts v m ps = Inr m' \<Longrightarrow> distinct (map fst m')"
proof (induction ps arbitrary: m)
  case Nil
  then show ?case by simp
next
  case (Cons p ps)
  then show ?case
    by (auto split: sum.splits intro: distinct_update)
qed

lemma toStringPathMapLoop_distinct:
  "distinct (map fst m) \<Longrightarrow> toStringPathMapLoop pts m pathMap = Inr m' \<Longrightarrow> distinct (map fst m')"
proof (induction pathMap arbitrary: m)
  case Nil
  then show ?case by simp
next
  case (Cons pv pathMap)
  obtain paths v where pv: "pv = (paths, v)" by (cases pv)
  from Cons.prems(2) obtain m1 where
    m1: "toStringPathMapPaths pts v m (rangeOf (gNMIPaths paths)) = Inr m1"
    and rest: "toStringPathMapLoop pts m1 pathMap = Inr m'"
    by (auto simp: pv split: sum.splits)
  from toStringPathMapPaths_distinct [OF Cons.prems(1) m1] have "distinct (map fst m1)" .
  from Cons.IH [OF this rest] show ?case .
qed

lemma toStringPathMap_distinct:
  "toStringPathMap env rank pathMap = Inr m \<Longrightarrow> distinct (map fst m)"
  unfolding toStringPathMap_def
  using toStringPathMapLoop_distinct [of "[]"] by simp

lemma carriesUpdate_mono:
  "carriesUpdate env n pinfo \<Longrightarrow> set (Update n) \<subseteq> set (Update n') \<Longrightarrow> carriesUpdate env n' pinfo"
  unfolding carriesUpdate_def by (auto split: sum.splits)

lemma appendUpdate_carries:
  assumes "appendUpdate env n strPath pinfo = Inr n'"
  shows "carriesUpdate env n' pinfo" and "set (Update n) \<subseteq> set (Update n')"
    and "Delete n' = Delete n"
  using assms
  by (auto simp: appendUpdate_def carriesUpdate_def split: sum.splits)

lemma diffOriginal_emits:
  assumes "diffOriginal env modLeavesStr n xs = Inr n'"
  shows "set (Update n) \<subseteq> set (Update n') \<and> set (Delete n) \<subseteq> set (Delete n')
     \<and> (\<forall>(origPath, origVal)\<in>set xs.
           case map_of modLeavesStr origPath of
             Some modVal \<Rightarrow> \<not> DeepEqual env (pi_val origVal) (pi_val modVal) \<longrightarrow> carriesUpdate env n' modVal
           | None \<Rightarrow> pi_path origVal \<in> set (Delete n'))"
  using assms
proof (induction xs arbitrary: n)
  case Nil
  then show ?case by simp
next
  case (Cons x xs)
  obtain origPath origVal where x: "x = (origPath, origVal)" by (cases x)
  show ?case
  proof (cases "map_of modLeavesStr origPath")
    case None
    with Cons.prems x have
      "diffOriginal env modLeavesStr (n\<lparr>Delete := Delete n @ [pi_path origVal]\<rparr>) xs = Inr n'"
      by simp
    from Cons.IH [OF this] None x show ?thesis by auto
  next
    case (Some modVal)
    show ?thesis
    proof (cases "\<not> DeepEqual env (pi_val origVal) (pi_val modVal)")
      case True
      with Cons.prems x Some obtain n1 where
        n1: "appendUpdate env n origPath modVal = Inr n1"
        and rest: "diffOriginal env modLeavesStr n1 xs = Inr n'"
        by (auto split: sum.splits)
      from Cons.IH [OF rest] have ih: "set (Update n1) \<subseteq> set (Update n')"
        "set (Delete n1) \<subseteq> set (Delete n')"
        "\<forall>(origPath, origVal)\<in>set xs.
           case map_of modLeavesStr origPath of
             Some modVal \<Rightarrow> \<not> DeepEqual env (pi_val origVal) (pi_val modVal) \<longrightarrow> carriesUpdate env n' modVal
           | None \<Rightarrow> pi_path origVal \<in> set (Delete n')"
        by simp_all
      from appendUpdate_carries [OF n1] ih(1) have "carriesUpdate env n' modVal"
        using carriesUpdate_mono by blast
      with ih appendUpdate_carries [OF n1] Some x show ?thesis by auto
    next
      case False
      with Cons.prems x Some have "diffOriginal env modLeavesStr n xs = Inr n'" by simp
      from Cons.IH [OF this] False Some x show ?thesis by auto
    qed
  qed
qed

lemma diffModified_emits:
  assumes "diffModified env origLeavesStr n xs = Inr n'"
  shows "set (Update n) \<subseteq> set (Update n') \<and> Delete n' = Delete n
     \<and> (\<forall>(modPath, modVal)\<in>set xs.
           map_of origLeavesStr modPath = None \<longrightarrow> carriesUpdate env n' modVal)"
  using assms
proof (induction xs arbitrary: n)
  case Nil
  then show ?case by simp
next
  case (Cons x xs)
  obtain modPath modVal where x: "x = (modPath, modVal)" by (cases x)
  show ?case
  proof (cases "map_of origLeavesStr modPath")
    case None
    with Cons.prems x obtain n1 where
      n1: "appendUpdate env n modPath modVal = Inr n1"
      and rest: "diffModified env origLeavesStr n1 xs = Inr n'"
      by (auto split: sum.splits)
    from Cons.IH [OF rest] have ih: "set (Update n1) \<subseteq> set (Update n')"
      "Delete n' = Delete n1"
      "\<forall>(modPath, modVal)\<in>set xs.
           map_of origLeavesStr modPath = None \<longrightarrow> carriesUpdate env n' modVal"
      by simp_all
    from appendUpdate_carries [OF n1] ih(1) have "carriesUpdate env n' modVal"
      using carriesUpdate_mono by blast
    with ih appendUpdate_carries [OF n1] x show ?thesis by auto
  next
    case (Some origVal)
    with Cons.prems x have "diffModified env origLeavesStr n xs = Inr n'" by simp
    from Cons.IH [OF this] Some x show ?thesis by auto
  qed
qed

lemma Diff_InrD:
  assumes "Diff env original modified opts = Inr n"
  obtains origLeavesStr modLeavesStr n1 where
    "flattened env (rangeOrder env OrigLeaves) original opts = Inr origLeavesStr"
    "flattened env (rangeOrder env ModLeaves) modified opts = Inr modLeavesStr"
    "diffOriginal env modLeavesStr \<lparr>Prefix = None, Update = [], Delete = [], Atomic = False\<rparr>
       (rangeBy (rangeOrder env OrigLeavesStr) origLeavesStr) = Inr n1"
    "if hasIgnoreAdditions opts \<noteq> None then n = n1
     else diffModified env origLeavesStr n1 (rangeBy (rangeOrder env ModLeavesStr) modLeavesStr) = Inr n"
  using assms
  by (auto simp: Diff_def flattened_def split: if_splits sum.splits)

text \<open>
  Claim C1. When \<open>Diff\<close> returns a notification, both structs have a flattened map, and:
  for every address of the original map whose value in the modified map is not equal, the
  notification carries an update with the path and the value of the modified leaf; for every
  address of the original map that the modified map lacks, it carries a delete of the path of
  the original leaf; and unless an ignore-additions option is supplied, it carries an update
  for every address that only the modified map has.
\<close>

theorem Diff_emits:
  assumes "Diff env original modified opts = Inr n"
  shows "\<exists>origLeavesStr modLeavesStr.
      flattened env (rangeOrder env OrigLeaves) original opts = Inr origLeavesStr
    \<and> flattened env (rangeOrder env ModLeaves) modified opts = Inr modLeavesStr
    \<and> (\<forall>origPath origVal. map_of origLeavesStr origPath = Some origVal \<longrightarrow>
          (case map_of modLeavesStr origPath of
             Some modVal \<Rightarrow> \<not> DeepEqual env (pi_val origVal) (pi_val modVal) \<longrightarrow> carriesUpdate env n modVal
           | None \<Rightarrow> pi_path origVal \<in> set (Delete n)))
    \<and> (hasIgnoreAdditions opts = None \<longrightarrow>
          (\<forall>modPath modVal. map_of modLeavesStr modPath = Some modVal \<longrightarrow>
             map_of origLeavesStr modPath = None \<longrightarrow> carriesUpdate env n modVal))"
proof -
  from assms obtain origLeavesStr modLeavesStr n1 where
    fo: "flattened env (rangeOrder env OrigLeaves) original opts = Inr origLeavesStr" and
    fm: "flattened env (rangeOrder env ModLeaves) modified opts = Inr modLeavesStr" and
    l1: "diffOriginal env modLeavesStr \<lparr>Prefix = None, Update = [], Delete = [], Atomic = False\<rparr>
           (rangeBy (rangeOrder env OrigLeavesStr) origLeavesStr) = Inr n1" and
    l2: "if hasIgnoreAdditions opts \<noteq> None then n = n1
         else diffModified env origLeavesStr n1 (rangeBy (rangeOrder env ModLeavesStr) modLeavesStr) = Inr n"
    by (rule Diff_InrD)
  from diffOriginal_emits [OF l1] have
    o: "\<forall>(origPath, origVal)\<in>set origLeavesStr.
           case map_of modLeavesStr origPath of
             Some modVal \<Rightarrow> \<not> DeepEqual env (pi_val origVal) (pi_val modVal) \<longrightarrow> carriesUpdate env n1 modVal
           | None \<Rightarrow> pi_path origVal \<in> set (Delete n1)"
    by simp
  have mono: "set (Update n1) \<subseteq> set (Update n) \<and> Delete n = Delete n1"
    using l2 diffModified_emits [of env origLeavesStr n1 "rangeBy (rangeOrder env ModLeavesStr) modLeavesStr" n]
    by (auto split: if_splits)
  have 1: "case map_of modLeavesStr origPath of
             Some modVal \<Rightarrow> \<not> DeepEqual env (pi_val origVal) (pi_val modVal) \<longrightarrow> carriesUpdate env n modVal
           | None \<Rightarrow> pi_path origVal \<in> set (Delete n)"
    if "map_of origLeavesStr origPath = Some origVal" for origPath origVal
  proof -
    from that have "(origPath, origVal) \<in> set origLeavesStr" by (rule map_of_SomeD)
    with o have c: "case map_of modLeavesStr origPath of
             Some modVal \<Rightarrow> \<not> DeepEqual env (pi_val origVal) (pi_val modVal) \<longrightarrow> carriesUpdate env n1 modVal
           | None \<Rightarrow> pi_path origVal \<in> set (Delete n1)"
      by auto
    show ?thesis
    proof (cases "map_of modLeavesStr origPath")
      case None
      with c mono show ?thesis by simp
    next
      case (Some modVal)
      with c have "\<not> DeepEqual env (pi_val origVal) (pi_val modVal) \<longrightarrow> carriesUpdate env n1 modVal" by simp
      with mono have "\<not> DeepEqual env (pi_val origVal) (pi_val modVal) \<longrightarrow> carriesUpdate env n modVal"
        using carriesUpdate_mono [of env n1 modVal n] by blast
      with Some show ?thesis by simp
    qed
  qed
  have 2: "carriesUpdate env n modVal"
    if "hasIgnoreAdditions opts = None" "map_of modLeavesStr modPath = Some modVal"
       "map_of origLeavesStr modPath = None" for modPath modVal
  proof -
    from that(1) l2 have "diffModified env origLeavesStr n1 (rangeBy (rangeOrder env ModLeavesStr) modLeavesStr) = Inr n" by simp
    from diffModified_emits [OF this] map_of_SomeD [OF that(2)] that(3) show ?thesis by auto
  qed
  from fo fm 1 2 show ?thesis
    by (intro exI [of _ origLeavesStr] exI [of _ modLeavesStr]) simp
qed

lemma flattened_originalFoo:
  "flattened listed_env (rangeOrder listed_env OrigLeaves) originalFoo [] =
     Inr [(''/a'', \<lparr>pi_val = 1, pi_path = namedPath ''a''\<rparr>),
          (''/c'', \<lparr>pi_val = 3, pi_path = namedPath ''c''\<rparr>)]"
  by (simp add: flattened_def findSetLeaves_def findSetIterFunc_def declaredPaths_def
      singlePath_def nodeValuePath_def parentAnnotation_def nodeRootPath_def
      schemaPathTogNMIPath_def listed_env_def rootLeaf_def leafField_def leafValue_def
      pathNames_def toStringPathMap_def originalFoo_def namedPath_def Let_def)

lemma flattened_modifiedFoo:
  "flattened listed_env (rangeOrder listed_env ModLeaves) modifiedFoo [] =
     Inr [(''/a'', \<lparr>pi_val = 2, pi_path = namedPath ''a''\<rparr>),
          (''/b'', \<lparr>pi_val = 5, pi_path = namedPath ''b''\<rparr>)]"
  by (simp add: flattened_def findSetLeaves_def findSetIterFunc_def declaredPaths_def
      singlePath_def nodeValuePath_def parentAnnotation_def nodeRootPath_def
      schemaPathTogNMIPath_def listed_env_def rootLeaf_def leafField_def leafValue_def
      pathNames_def toStringPathMap_def modifiedFoo_def namedPath_def Let_def)

lemma Diff_originalFoo_modifiedFoo:
  "Diff listed_env originalFoo modifiedFoo [] = Inr diffFoo"
proof -
  have "TypeOf listed_env originalFoo = TypeOf listed_env modifiedFoo"
    by (simp add: listed_env_def originalFoo_def modifiedFoo_def)
  moreover from flattened_originalFoo obtain ol where
    "findSetLeaves listed_env originalFoo [] = Inr ol"
    "toStringPathMap listed_env (rangeOrder listed_env OrigLeaves) ol = Inr [(''/a'', \<lparr>pi_val = 1, pi_path = namedPath ''a''\<rparr>),
          (''/c'', \<lparr>pi_val = 3, pi_path = namedPath ''c''\<rparr>)]"
    by (auto simp: flattened_def split: sum.splits)
  moreover from flattened_modifiedFoo obtain ml where
    "findSetLeaves listed_env modifiedFoo [] = Inr ml"
    "toStringPathMap listed_env (rangeOrder listed_env ModLeaves) ml = Inr [(''/a'', \<lparr>pi_val = 2, pi_path = namedPath ''a''\<rparr>),
          (''/b'', \<lparr>pi_val = 5, pi_path = namedPath ''b''\<rparr>)]"
    by (auto simp: flattened_def split: sum.splits)
  ultimately show ?thesis
    by (simp add: Diff_def appendUpdate_def listed_env_def diffFoo_def)
qed

theorem Diff_emits_witness:
  "Diff listed_env originalFoo modifiedFoo [] = Inr diffFoo
   \<and> (\<exists>origLeavesStr modLeavesStr.
      flattened listed_env (rangeOrder listed_env OrigLeaves) originalFoo [] = Inr origLeavesStr
    \<and> flattened listed_env (rangeOrder listed_env ModLeaves) modifiedFoo [] = Inr modLeavesStr
    \<and> (\<forall>origPath origVal. map_of origLeavesStr origPath = Some origVal \<longrightarrow>
          (case map_of modLeavesStr origPath of
             Some modVal \<Rightarrow> \<not> DeepEqual listed_env (pi_val origVal) (pi_val modVal) \<longrightarrow>
               carriesUpdate listed_env diffFoo modVal
           | None \<Rightarrow> pi_path origVal \<in> set (Delete diffFoo)))
    \<and> (hasIgnoreAdditions [] = None \<longrightarrow>
          (\<forall>modPath modVal. map_of modLeavesStr modPath = Some modVal \<longrightarrow>
             map_of origLeavesStr modPath = None \<longrightarrow>
               carriesUpdate listed_env diffFoo modVal)))"
  by (rule conjI [OF Diff_originalFoo_modifiedFoo Diff_emits [OF Diff_originalFoo_modifiedFoo]])

text \<open>
  Conversely, the notification holds nothing else: every update is the encoding of a leaf of
  the modified map that the original map lacks or holds with another value, and every delete
  is the path of a leaf of the original map that the modified map lacks.
\<close>

lemma appendUpdate_InrD:
  assumes "appendUpdate env n strPath pinfo = Inr n'"
  obtains v where "EncodeTypedValue env (pi_val pinfo) = Inr v"
    "Update n' = Update n @ [\<lparr>Path = pi_path pinfo, Val = v\<rparr>]" "Delete n' = Delete n"
  using assms by (auto simp: appendUpdate_def split: sum.splits)

lemma diffOriginal_only:
  assumes "diffOriginal env m n xs = Inr n'"
  shows "(\<forall>u\<in>set (Update n'). u \<in> set (Update n)
            \<or> (\<exists>k ov mv. (k, ov) \<in> set xs \<and> map_of m k = Some mv \<and> \<not> DeepEqual env (pi_val ov) (pi_val mv)
                 \<and> EncodeTypedValue env (pi_val mv) = Inr (Val u) \<and> Path u = pi_path mv))
       \<and> (\<forall>d\<in>set (Delete n'). d \<in> set (Delete n)
            \<or> (\<exists>k ov. (k, ov) \<in> set xs \<and> map_of m k = None \<and> d = pi_path ov))"
  using assms
proof (induction xs arbitrary: n)
  case Nil
  then show ?case by simp
next
  case (Cons x xs)
  obtain k ov where x: "x = (k, ov)" by (cases x)
  show ?case
  proof (cases "map_of m k")
    case None
    with Cons.prems x have
      "diffOriginal env m (n\<lparr>Delete := Delete n @ [pi_path ov]\<rparr>) xs = Inr n'"
      by simp
    from Cons.IH [OF this] None x show ?thesis
      by simp (metis list.set_intros(2))
  next
    case (Some mv)
    show ?thesis
    proof (cases "\<not> DeepEqual env (pi_val ov) (pi_val mv)")
      case True
      with Cons.prems x Some obtain n1 where
        n1: "appendUpdate env n k mv = Inr n1"
        and rest: "diffOriginal env m n1 xs = Inr n'"
        by (auto split: sum.splits)
      from n1 obtain v where v: "EncodeTypedValue env (pi_val mv) = Inr v"
        "Update n1 = Update n @ [\<lparr>Path = pi_path mv, Val = v\<rparr>]" "Delete n1 = Delete n"
        by (rule appendUpdate_InrD)
      from Cons.IH [OF rest] v Some True x show ?thesis
        by simp (metis Update.select_convs(1,2) list.set_intros(1,2))
    next
      case False
      with Cons.prems x Some have "diffOriginal env m n xs = Inr n'" by simp
      from Cons.IH [OF this] x show ?thesis
        by simp (metis list.set_intros(2))
    qed
  qed
qed

lemma diffModified_only:
  assumes "diffModified env m n xs = Inr n'"
  shows "(\<forall>u\<in>set (Update n'). u \<in> set (Update n)
            \<or> (\<exists>k mv. (k, mv) \<in> set xs \<and> map_of m k = None
                 \<and> EncodeTypedValue env (pi_val mv) = Inr (Val u) \<and> Path u = pi_path mv))"
  using assms
proof (induction xs arbitrary: n)
  case Nil
  then show ?case by simp
next
  case (Cons x xs)
  obtain k mv where x: "x = (k, mv)" by (cases x)
  show ?case
  proof (cases "map_of m k")
    case None
    with Cons.prems x obtain n1 where
      n1: "appendUpdate env n k mv = Inr n1"
      and rest: "diffModified env m n1 xs = Inr n'"
      by (auto split: sum.splits)
    from n1 obtain v where v: "EncodeTypedValue env (pi_val mv) = Inr v"
      "Update n1 = Update n @ [\<lparr>Path = pi_path mv, Val = v\<rparr>]" "Delete n1 = Delete n"
      by (rule appendUpdate_InrD)
    from Cons.IH [OF rest] v None x show ?thesis
      by simp (metis Update.select_convs(1,2) list.set_intros(1,2))
  next
    case (Some ov)
    with Cons.prems x have "diffModified env m n xs = Inr n'" by simp
    from Cons.IH [OF this] x show ?thesis
      by simp (metis list.set_intros(2))
  qed
qed

lemma flattened_distinct:
  assumes "flattened env rank s opts = Inr m"
  shows "distinct (map fst m)"
proof -
  from assms obtain leaves where "toStringPathMap env rank leaves = Inr m"
    by (auto simp: flattened_def split: sum.splits)
  then show ?thesis by (rule toStringPathMap_distinct)
qed

lemma Diff_emits_only:
  assumes "Diff env original modified opts = Inr n"
  obtains origLeavesStr modLeavesStr where
    "flattened env (rangeOrder env OrigLeaves) original opts = Inr origLeavesStr"
    "flattened env (rangeOrder env ModLeaves) modified opts = Inr modLeavesStr"
    "\<forall>u\<in>set (Update n). \<exists>k mv. map_of modLeavesStr k = Some mv
        \<and> EncodeTypedValue env (pi_val mv) = Inr (Val u) \<and> Path u = pi_path mv
        \<and> (case map_of origLeavesStr k of
              Some ov \<Rightarrow> \<not> DeepEqual env (pi_val ov) (pi_val mv)
            | None \<Rightarrow> hasIgnoreAdditions opts = None)"
    "\<forall>d\<in>set (Delete n). \<exists>k ov. map_of origLeavesStr k = Some ov
        \<and> map_of modLeavesStr k = None \<and> d = pi_path ov"
proof -
  from assms obtain origLeavesStr modLeavesStr n1 where
    fo: "flattened env (rangeOrder env OrigLeaves) original opts = Inr origLeavesStr" and
    fm: "flattened env (rangeOrder env ModLeaves) modified opts = Inr modLeavesStr" and
    l1: "diffOriginal env modLeavesStr \<lparr>Prefix = None, Update = [], Delete = [], Atomic = False\<rparr>
           (rangeBy (rangeOrder env OrigLeavesStr) origLeavesStr) = Inr n1" and
    l2: "if hasIgnoreAdditions opts \<noteq> None then n = n1
         else diffModified env origLeavesStr n1 (rangeBy (rangeOrder env ModLeavesStr) modLeavesStr) = Inr n"
    by (rule Diff_InrD)
  from fo have dorig: "distinct (map fst origLeavesStr)" by (rule flattened_distinct)
  from fm have dmod: "distinct (map fst modLeavesStr)" by (rule flattened_distinct)
  from diffOriginal_only [OF l1] have
    u1: "\<forall>u\<in>set (Update n1). \<exists>k ov mv. (k, ov) \<in> set origLeavesStr
           \<and> map_of modLeavesStr k = Some mv \<and> \<not> DeepEqual env (pi_val ov) (pi_val mv)
           \<and> EncodeTypedValue env (pi_val mv) = Inr (Val u) \<and> Path u = pi_path mv"
    and d1: "\<forall>d\<in>set (Delete n1). \<exists>k ov. (k, ov) \<in> set origLeavesStr
           \<and> map_of modLeavesStr k = None \<and> d = pi_path ov"
    by simp_all
  have changed: "\<exists>k mv. map_of modLeavesStr k = Some mv
        \<and> EncodeTypedValue env (pi_val mv) = Inr (Val u) \<and> Path u = pi_path mv
        \<and> (case map_of origLeavesStr k of
              Some ov \<Rightarrow> \<not> DeepEqual env (pi_val ov) (pi_val mv)
            | None \<Rightarrow> hasIgnoreAdditions opts = None)"
    if "u \<in> set (Update n1)" for u
  proof -
    from u1 that obtain k ov mv where
      "(k, ov) \<in> set origLeavesStr" "map_of modLeavesStr k = Some mv" "\<not> DeepEqual env (pi_val ov) (pi_val mv)"
      "EncodeTypedValue env (pi_val mv) = Inr (Val u)" "Path u = pi_path mv"
      by blast
    moreover from this(1) dorig have "map_of origLeavesStr k = Some ov" by simp
    ultimately show ?thesis by force
  qed
  have deleted: "\<exists>k ov. map_of origLeavesStr k = Some ov
        \<and> map_of modLeavesStr k = None \<and> d = pi_path ov"
    if "d \<in> set (Delete n1)" for d
  proof -
    from d1 that obtain k ov where
      "(k, ov) \<in> set origLeavesStr" "map_of modLeavesStr k = None" "d = pi_path ov"
      by blast
    moreover from this(1) dorig have "map_of origLeavesStr k = Some ov" by simp
    ultimately show ?thesis by blast
  qed
  show thesis
  proof (cases "hasIgnoreAdditions opts")
    case (Some a)
    with l2 have "n = n1" by simp
    with changed deleted fo fm show thesis by (intro that) auto
  next
    case None
    with l2 have m: "diffModified env origLeavesStr n1 (rangeBy (rangeOrder env ModLeavesStr) modLeavesStr) = Inr n" by simp
    from diffModified_emits [OF m] have del: "Delete n = Delete n1" by simp
    have "\<exists>k mv. map_of modLeavesStr k = Some mv
        \<and> EncodeTypedValue env (pi_val mv) = Inr (Val u) \<and> Path u = pi_path mv
        \<and> (case map_of origLeavesStr k of
              Some ov \<Rightarrow> \<not> DeepEqual env (pi_val ov) (pi_val mv)
            | None \<Rightarrow> hasIgnoreAdditions opts = None)"
      if "u \<in> set (Update n)" for u
    proof -
      from diffModified_only [OF m, unfolded set_rangeBy] that
      consider "u \<in> set (Update n1)"
        | k mv where "(k, mv) \<in> set modLeavesStr" "map_of origLeavesStr k = None"
            "EncodeTypedValue env (pi_val mv) = Inr (Val u)" "Path u = pi_path mv"
        by blast
      then show ?thesis
      proof cases
        case 1
        then show ?thesis by (rule changed)
      next
        case 2
        from 2(1) dmod have "map_of modLeavesStr k = Some mv" by simp
        with 2 None show ?thesis by force
      qed
    qed
    with deleted del fo fm show thesis by (intro that) auto
  qed
qed

text \<open>
  \<open>Diff\<close> returns a notification whenever the two structs have the same type, both have a
  flattened map and every leaf value can be encoded.
\<close>

lemma diffOriginal_total:
  assumes "\<forall>v. \<exists>tv. EncodeTypedValue env v = Inr tv"
  shows "\<exists>n'. diffOriginal env modLeavesStr n xs = Inr n'"
proof (induction xs arbitrary: n)
  case Nil
  then show ?case by simp
next
  case (Cons x xs)
  obtain origPath origVal where x: "x = (origPath, origVal)" by (cases x)
  have "\<exists>n1. appendUpdate env n origPath modVal = Inr n1" for modVal
    using assms by (auto simp: appendUpdate_def split: sum.splits) (metis sum.distinct(1))
  with Cons.IH x show ?case
    by (auto split: option.splits sum.splits) (metis sum.distinct(1))
qed

lemma diffModified_total:
  assumes "\<forall>v. \<exists>tv. EncodeTypedValue env v = Inr tv"
  shows "\<exists>n'. diffModified env origLeavesStr n xs = Inr n'"
proof (induction xs arbitrary: n)
  case Nil
  then show ?case by simp
next
  case (Cons x xs)
  obtain modPath modVal where x: "x = (modPath, modVal)" by (cases x)
  have "\<exists>n1. appendUpdate env n modPath modVal = Inr n1"
    using assms by (auto simp: appendUpdate_def split: sum.splits) (metis sum.distinct(1))
  with Cons.IH x show ?case
    by (auto split: option.splits sum.splits)
qed

lemma Diff_returns:
  assumes "TypeOf env original = TypeOf env modified"
    and "flattened env (rangeOrder env OrigLeaves) original opts = Inr origLeavesStr"
    and "flattened env (rangeOrder env ModLeaves) modified opts = Inr modLeavesStr"
    and enc: "\<forall>v. \<exists>tv. EncodeTypedValue env v = Inr tv"
  shows "\<exists>n. Diff env original modified opts = Inr n"
proof -
  from assms(2) obtain ol where ol: "findSetLeaves env original opts = Inr ol"
    "toStringPathMap env (rangeOrder env OrigLeaves) ol = Inr origLeavesStr"
    by (auto simp: flattened_def split: sum.splits)
  from assms(3) obtain ml where ml: "findSetLeaves env modified opts = Inr ml"
    "toStringPathMap env (rangeOrder env ModLeaves) ml = Inr modLeavesStr"
    by (auto simp: flattened_def split: sum.splits)
  from diffOriginal_total [OF enc] obtain n1 where
    n1: "diffOriginal env modLeavesStr \<lparr>Prefix = None, Update = [], Delete = [], Atomic = False\<rparr>
           (rangeBy (rangeOrder env OrigLeavesStr) origLeavesStr) = Inr n1"
    by blast
  from diffModified_total [OF enc] obtain n2 where
    n2: "diffModified env origLeavesStr n1 (rangeBy (rangeOrder env ModLeavesStr) modLeavesStr) = Inr n2"
    by blast
  from assms(1) ol ml n1 n2 show ?thesis
    by (simp add: Diff_def)
qed

section \<open>Diff of a struct with itself\<close>

text \<open>
  What \<^verbatim>\<open>toStringPathMap\<close> stores, whatever the order of its range: a key for every path
  string of every leaf, and under each key the value of a leaf that has this path string.
\<close>

lemma leafStrings_iff:
  "k \<in> set (leafStrings pts vp) \<longleftrightarrow> (\<exists>p\<in>set (rangeOf (gNMIPaths vp)). pts p = Inr k)"
  unfolding leafStrings_def by (auto split: sum.splits) metis

lemma set_update_entries:
  "set (AList.update k v al) \<subseteq> insert (k, v) (set al)"
  by (induction al) auto

lemma toStringPathMapPaths_keys_mono:
  "toStringPathMapPaths pts v m ps = Inr m' \<Longrightarrow> fst ` set m \<subseteq> fst ` set m'"
proof (induction ps arbitrary: m)
  case Nil
  then show ?case by simp
next
  case (Cons p ps)
  from Cons.prems obtain k where k: "pts p = Inr k"
    and rest: "toStringPathMapPaths pts v (AList.update k \<lparr>pi_val = v, pi_path = p\<rparr> m) ps = Inr m'"
    by (auto split: sum.splits)
  from Cons.IH [OF rest] show ?case by (simp add: dom_update)
qed

lemma toStringPathMapPaths_keys:
  "toStringPathMapPaths pts v m ps = Inr m' \<Longrightarrow> p \<in> set ps \<Longrightarrow> pts p = Inr k
     \<Longrightarrow> k \<in> fst ` set m'"
proof (induction ps arbitrary: m)
  case Nil
  then show ?case by simp
next
  case (Cons q ps)
  from Cons.prems(1) obtain kq where kq: "pts q = Inr kq"
    and rest: "toStringPathMapPaths pts v (AList.update kq \<lparr>pi_val = v, pi_path = q\<rparr> m) ps = Inr m'"
    by (auto split: sum.splits)
  show ?case
  proof (cases "p = q")
    case True
    with kq Cons.prems(3) have "kq = k" by simp
    moreover from toStringPathMapPaths_keys_mono [OF rest] have "kq \<in> fst ` set m'"
      by (simp add: dom_update)
    ultimately show ?thesis by simp
  next
    case False
    with Cons.prems(2) have "p \<in> set ps" by simp
    from Cons.IH [OF rest this Cons.prems(3)] show ?thesis .
  qed
qed

lemma toStringPathMapPaths_values:
  "toStringPathMapPaths pts v m ps = Inr m' \<Longrightarrow> (k, pinfo) \<in> set m'
     \<Longrightarrow> (k, pinfo) \<in> set m \<or> (pi_val pinfo = v \<and> (\<exists>p\<in>set ps. pts p = Inr k))"
proof (induction ps arbitrary: m)
  case Nil
  then show ?case by simp
next
  case (Cons q ps)
  from Cons.prems(1) obtain kq where kq: "pts q = Inr kq"
    and rest: "toStringPathMapPaths pts v (AList.update kq \<lparr>pi_val = v, pi_path = q\<rparr> m) ps = Inr m'"
    by (auto split: sum.splits)
  from Cons.IH [OF rest Cons.prems(2)] consider
      "(k, pinfo) \<in> set (AList.update kq \<lparr>pi_val = v, pi_path = q\<rparr> m)"
    | "pi_val pinfo = v \<and> (\<exists>p\<in>set ps. pts p = Inr k)"
    by blast
  then show ?case
  proof cases
    case 1
    with set_update_entries [of kq "\<lparr>pi_val = v, pi_path = q\<rparr>" m]
    have "(k, pinfo) = (kq, \<lparr>pi_val = v, pi_path = q\<rparr>) \<or> (k, pinfo) \<in> set m"
      by auto
    with kq show ?thesis by auto
  next
    case 2
    then show ?thesis by auto
  qed
qed

lemma toStringPathMapLoop_keys_mono:
  "toStringPathMapLoop pts m ls = Inr m' \<Longrightarrow> fst ` set m \<subseteq> fst ` set m'"
proof (induction ls arbitrary: m)
  case Nil
  then show ?case by simp
next
  case (Cons l ls)
  obtain vp v where l: "l = (vp, v)" by (cases l)
  from Cons.prems obtain m1 where
    m1: "toStringPathMapPaths pts v m (rangeOf (gNMIPaths vp)) = Inr m1"
    and rest: "toStringPathMapLoop pts m1 ls = Inr m'"
    by (auto simp: l split: sum.splits)
  from toStringPathMapPaths_keys_mono [OF m1] Cons.IH [OF rest] show ?case by blast
qed

lemma toStringPathMapLoop_keys:
  "toStringPathMapLoop pts m ls = Inr m' \<Longrightarrow> (vp, v) \<in> set ls
     \<Longrightarrow> k \<in> set (leafStrings pts vp) \<Longrightarrow> k \<in> fst ` set m'"
proof (induction ls arbitrary: m)
  case Nil
  then show ?case by simp
next
  case (Cons l ls)
  obtain vp' v' where l: "l = (vp', v')" by (cases l)
  from Cons.prems(1) obtain m1 where
    m1: "toStringPathMapPaths pts v' m (rangeOf (gNMIPaths vp')) = Inr m1"
    and rest: "toStringPathMapLoop pts m1 ls = Inr m'"
    by (auto simp: l split: sum.splits)
  show ?case
  proof (cases "(vp, v) = l")
    case True
    with l Cons.prems(3) obtain p where "p \<in> set (rangeOf (gNMIPaths vp'))" "pts p = Inr k"
      unfolding leafStrings_iff by auto
    from toStringPathMapPaths_keys [OF m1 this] have "k \<in> fst ` set m1" .
    with toStringPathMapLoop_keys_mono [OF rest] show ?thesis by blast
  next
    case False
    with Cons.prems(2) have "(vp, v) \<in> set ls" by auto
    from Cons.IH [OF rest this Cons.prems(3)] show ?thesis .
  qed
qed

lemma toStringPathMapLoop_values:
  "toStringPathMapLoop pts m ls = Inr m' \<Longrightarrow> (k, pinfo) \<in> set m'
     \<Longrightarrow> (k, pinfo) \<in> set m
         \<or> (\<exists>vp. (vp, pi_val pinfo) \<in> set ls \<and> k \<in> set (leafStrings pts vp))"
proof (induction ls arbitrary: m)
  case Nil
  then show ?case by simp
next
  case (Cons l ls)
  obtain vp' v' where l: "l = (vp', v')" by (cases l)
  from Cons.prems(1) obtain m1 where
    m1: "toStringPathMapPaths pts v' m (rangeOf (gNMIPaths vp')) = Inr m1"
    and rest: "toStringPathMapLoop pts m1 ls = Inr m'"
    by (auto simp: l split: sum.splits)
  from Cons.IH [OF rest Cons.prems(2)] consider "(k, pinfo) \<in> set m1"
    | "\<exists>vp. (vp, pi_val pinfo) \<in> set ls \<and> k \<in> set (leafStrings pts vp)"
    by blast
  then show ?case
  proof cases
    case 1
    from toStringPathMapPaths_values [OF m1 1]
    have "(k, pinfo) \<in> set m \<or> (pi_val pinfo = v' \<and> k \<in> set (leafStrings pts vp'))"
      unfolding leafStrings_iff .
    with l show ?thesis by auto
  next
    case 2
    then show ?thesis by auto
  qed
qed

lemma toStringPathMap_keys:
  assumes "toStringPathMap env rank leaves = Inr m"
    and "(vp, v) \<in> set leaves" and "k \<in> set (leafStrings (PathToString env) vp)"
  shows "k \<in> fst ` set m"
  using toStringPathMapLoop_keys [OF assms(1) [unfolded toStringPathMap_def], of vp v k] assms(2,3)
  by simp

lemma toStringPathMap_values:
  assumes "toStringPathMap env rank leaves = Inr m" and "(k, pinfo) \<in> set m"
  obtains vp where "(vp, pi_val pinfo) \<in> set leaves"
    "k \<in> set (leafStrings (PathToString env) vp)"
  using toStringPathMapLoop_values [OF assms(1) [unfolded toStringPathMap_def] assms(2)]
  by auto

text \<open>
  Whether \<^verbatim>\<open>toStringPathMap\<close> returns a map does not depend on the order of its range: it
  does when every path of every leaf has a string.
\<close>

lemma toStringPathMapPaths_returns:
  "(\<exists>m'. toStringPathMapPaths pts v m ps = Inr m') \<longleftrightarrow> (\<forall>p\<in>set ps. \<exists>k. pts p = Inr k)"
proof (induction ps arbitrary: m)
  case Nil
  then show ?case by simp
next
  case (Cons p ps)
  show ?case
  proof (cases "pts p")
    case (Inl err)
    then show ?thesis by auto
  next
    case (Inr k)
    with Cons.IH [of "AList.update k \<lparr>pi_val = v, pi_path = p\<rparr> m"] show ?thesis by simp
  qed
qed

lemma toStringPathMapLoop_returns:
  "(\<exists>m'. toStringPathMapLoop pts m ls = Inr m')
     \<longleftrightarrow> (\<forall>(vp, v)\<in>set ls. \<forall>p\<in>set (rangeOf (gNMIPaths vp)). \<exists>k. pts p = Inr k)"
proof (induction ls arbitrary: m)
  case Nil
  then show ?case by simp
next
  case (Cons l ls)
  obtain vp v where l: "l = (vp, v)" by (cases l)
  show ?case
  proof (cases "toStringPathMapPaths pts v m (rangeOf (gNMIPaths vp))")
    case (Inl err)
    with toStringPathMapPaths_returns [of pts v m "rangeOf (gNMIPaths vp)"]
    have "\<not> (\<forall>p\<in>set (rangeOf (gNMIPaths vp)). \<exists>k. pts p = Inr k)" by simp
    with Inl l show ?thesis by auto
  next
    case (Inr m1)
    with toStringPathMapPaths_returns [of pts v m "rangeOf (gNMIPaths vp)"]
    have "\<forall>p\<in>set (rangeOf (gNMIPaths vp)). \<exists>k. pts p = Inr k" by auto
    with Inr l Cons.IH [of m1] show ?thesis by simp
  qed
qed

lemma toStringPathMap_any_rank:
  assumes "toStringPathMap env rank leaves = Inr m"
  shows "\<exists>m'. toStringPathMap env rank' leaves = Inr m'"
proof -
  from assms have "\<exists>m. toStringPathMapLoop (PathToString env) [] (rangeBy rank leaves) = Inr m"
    by (simp add: toStringPathMap_def)
  then have "\<forall>(vp, v)\<in>set leaves. \<forall>p\<in>set (rangeOf (gNMIPaths vp)). \<exists>k. PathToString env p = Inr k"
    unfolding toStringPathMapLoop_returns by simp
  then have "\<exists>m. toStringPathMapLoop (PathToString env) [] (rangeBy rank' leaves) = Inr m"
    unfolding toStringPathMapLoop_returns by simp
  then show ?thesis by (simp add: toStringPathMap_def)
qed

text \<open>The two loops of \<^verbatim>\<open>Diff\<close> add nothing when every leaf is found with an equal value.\<close>

lemma diffOriginal_unchanged:
  assumes "\<forall>(k, ov)\<in>set xs. \<exists>mv. map_of m k = Some mv \<and> DeepEqual env (pi_val ov) (pi_val mv)"
  shows "diffOriginal env m n xs = Inr n"
  using assms
proof (induction xs)
  case Nil
  then show ?case by simp
next
  case (Cons x xs)
  obtain k ov where x: "x = (k, ov)" by (cases x)
  with Cons.prems obtain mv where "map_of m k = Some mv" "DeepEqual env (pi_val ov) (pi_val mv)"
    by auto
  with Cons x show ?case by simp
qed

lemma diffModified_unchanged:
  assumes "fst ` set xs \<subseteq> fst ` set m"
  shows "diffModified env m n xs = Inr n"
  using assms
proof (induction xs)
  case Nil
  then show ?case by simp
next
  case (Cons x xs)
  obtain k mv where x: "x = (k, mv)" by (cases x)
  with Cons.prems have "k \<in> fst ` set m" by simp
  then obtain ov where "map_of m k = Some ov"
    by (metis domD dom_map_of_conv_image_fst)
  with Cons x show ?case by simp
qed

lemma noSharedPath_same_value:
  assumes "noSharedPath env leaves"
    and "(vp1, v1) \<in> set leaves" and "(vp2, v2) \<in> set leaves"
    and "k \<in> set (leafStrings (PathToString env) vp1)"
    and "k \<in> set (leafStrings (PathToString env) vp2)"
  shows "v1 = v2"
proof -
  from assms(2) obtain i where i: "i < length leaves" "leaves ! i = (vp1, v1)"
    by (auto simp: in_set_conv_nth)
  from assms(3) obtain j where j: "j < length leaves" "leaves ! j = (vp2, v2)"
    by (auto simp: in_set_conv_nth)
  have "i = j"
  proof (rule ccontr)
    assume "i \<noteq> j"
    with assms(1) i(1) j(1) have
      "set (leafStrings (PathToString env) (fst (leaves ! i)))
         \<inter> set (leafStrings (PathToString env) (fst (leaves ! j))) = {}"
      unfolding noSharedPath_def by blast
    with i(2) j(2) assms(4,5) show False by auto
  qed
  with i(2) j(2) show ?thesis by simp
qed

lemma Diff_same_returns:
  assumes leaves: "findSetLeaves env T opts = Inr leaves"
    and mo: "toStringPathMap env (rangeOrder env OrigLeaves) leaves = Inr mo"
    and eq: "\<forall>(vp, v)\<in>set leaves. DeepEqual env v v"
    and ns: "noSharedPath env leaves"
  shows "Diff env T T opts = Inr \<lparr>Prefix = None, Update = [], Delete = [], Atomic = False\<rparr>"
proof -
  from toStringPathMap_any_rank [OF mo] obtain mm where
    mm: "toStringPathMap env (rangeOrder env ModLeaves) leaves = Inr mm"
    by blast
  have keys_om: "fst ` set mo \<subseteq> fst ` set mm"
  proof
    fix k assume "k \<in> fst ` set mo"
    then obtain ov where "(k, ov) \<in> set mo" by auto
    from toStringPathMap_values [OF mo this] obtain vp where
      "(vp, pi_val ov) \<in> set leaves" "k \<in> set (leafStrings (PathToString env) vp)"
      by blast
    then show "k \<in> fst ` set mm" by (rule toStringPathMap_keys [OF mm])
  qed
  have keys_mo: "fst ` set mm \<subseteq> fst ` set mo"
  proof
    fix k assume "k \<in> fst ` set mm"
    then obtain mv where "(k, mv) \<in> set mm" by auto
    from toStringPathMap_values [OF mm this] obtain vp where
      "(vp, pi_val mv) \<in> set leaves" "k \<in> set (leafStrings (PathToString env) vp)"
      by blast
    then show "k \<in> fst ` set mo" by (rule toStringPathMap_keys [OF mo])
  qed
  have same: "\<exists>mv. map_of mm k = Some mv \<and> DeepEqual env (pi_val ov) (pi_val mv)"
    if "(k, ov) \<in> set mo" for k ov
  proof -
    from toStringPathMap_values [OF mo that] obtain vp1 where
      1: "(vp1, pi_val ov) \<in> set leaves" "k \<in> set (leafStrings (PathToString env) vp1)"
      by blast
    from that keys_om have "k \<in> fst ` set mm" by force
    then obtain mv where mv: "map_of mm k = Some mv"
      by (metis domD dom_map_of_conv_image_fst)
    then have "(k, mv) \<in> set mm" by (rule map_of_SomeD)
    from toStringPathMap_values [OF mm this] obtain vp2 where
      2: "(vp2, pi_val mv) \<in> set leaves" "k \<in> set (leafStrings (PathToString env) vp2)"
      by blast
    from noSharedPath_same_value [OF ns 1(1) 2(1) 1(2) 2(2)] have "pi_val ov = pi_val mv" .
    moreover from eq 1(1) have "DeepEqual env (pi_val ov) (pi_val ov)" by auto
    ultimately show ?thesis using mv by simp
  qed
  have "diffOriginal env mm \<lparr>Prefix = None, Update = [], Delete = [], Atomic = False\<rparr>
          (rangeBy (rangeOrder env OrigLeavesStr) mo)
        = Inr \<lparr>Prefix = None, Update = [], Delete = [], Atomic = False\<rparr>"
    by (rule diffOriginal_unchanged) (use same in auto)
  moreover have "diffModified env mo \<lparr>Prefix = None, Update = [], Delete = [], Atomic = False\<rparr>
          (rangeBy (rangeOrder env ModLeavesStr) mm)
        = Inr \<lparr>Prefix = None, Update = [], Delete = [], Atomic = False\<rparr>"
    by (rule diffModified_unchanged) (use keys_mo in simp)
  ultimately show ?thesis
    using leaves mo mm by (simp add: Diff_def)
qed

text \<open>
  The diff of a struct with itself can hold an update. A union leaf that holds NaN by value
  is not deeply equal to itself: the struct with this one leaf at \<^verbatim>\<open>/u\<close> gives an update of
  \<^verbatim>\<open>/u\<close>. And when two leaves share a path, here \<^verbatim>\<open>/a\<close> with the values 1 and 2, each of the
  two flattened maps keeps for it the leaf that its range visits last: when the two ranges
  differ in order, \<^verbatim>\<open>Diff\<close> gives an update of \<^verbatim>\<open>/a\<close>.
\<close>

theorem Diff_same_update:
  "Diff union_env nanFoo nanFoo [] =
     Inr \<lparr>Prefix = None, Update = [\<lparr>Path = namedPath ''u'', Val = Float64NaN\<rparr>], Delete = [],
          Atomic = False\<rparr>
   \<and> Diff swapped_env sharedFoo sharedFoo [] =
     Inr \<lparr>Prefix = None, Update = [\<lparr>Path = namedPath ''a'', Val = 1\<rparr>], Delete = [],
          Atomic = False\<rparr>"
proof
  show "Diff union_env nanFoo nanFoo [] =
     Inr \<lparr>Prefix = None, Update = [\<lparr>Path = namedPath ''u'', Val = Float64NaN\<rparr>], Delete = [],
          Atomic = False\<rparr>"
    by (simp add: Diff_def findSetLeaves_def findSetIterFunc_def declaredPaths_def
      singlePath_def nodeValuePath_def parentAnnotation_def nodeRootPath_def
      schemaPathTogNMIPath_def union_env_def rootLeaf_def leafField_def leafValue_def
      pathNames_def toStringPathMap_def nanFoo_def namedPath_def appendUpdate_def
      deepEqualUnion_def Let_def)
  have leaves: "findSetLeaves swapped_env sharedFoo [] =
      Inr [(\<lparr>gNMIPaths = Some [namedPath ''a'']\<rparr>, 1),
           (\<lparr>gNMIPaths = Some [namedPath ''a'', namedPath ''b'']\<rparr>, 2)]"
    by (simp add: findSetLeaves_def findSetIterFunc_def declaredPaths_def
      singlePath_def nodeValuePath_def parentAnnotation_def nodeRootPath_def
      schemaPathTogNMIPath_def swapped_env_def rootLeaf_def leafField_def leafValue_def
      pathNames_def sharedFoo_def namedPath_def Let_def)
  show "Diff swapped_env sharedFoo sharedFoo [] =
     Inr \<lparr>Prefix = None, Update = [\<lparr>Path = namedPath ''a'', Val = 1\<rparr>], Delete = [],
          Atomic = False\<rparr>"
    unfolding Diff_def leaves
    by (simp add: swapped_env_def toStringPathMap_def rangeBy_def swapRank_def
      pathNames_def namedPath_def appendUpdate_def)
qed

text \<open>
  Claim C9, amended. Let the recorded leaves of a struct each hold a value that is deeply
  equal to itself, and let no two of them share a path string. Then, whatever the options
  and the orders of the ranges, when the diff of the struct with itself returns a
  notification, that notification has no update and no delete. (It returns one as soon as
  the struct has a flattened map: no value is encoded.)
\<close>

theorem Diff_same:
  assumes "Diff env T T opts = Inr n"
    and "findSetLeaves env T opts = Inr leaves"
    and "\<forall>(vp, v)\<in>set leaves. DeepEqual env v v"
    and "noSharedPath env leaves"
  shows "Update n = [] \<and> Delete n = []"
proof -
  from assms(1) obtain mo where "flattened env (rangeOrder env OrigLeaves) T opts = Inr mo"
    by (rule Diff_InrD)
  with assms(2) have "toStringPathMap env (rangeOrder env OrigLeaves) leaves = Inr mo"
    by (simp add: flattened_def)
  from Diff_same_returns [OF assms(2) this assms(3,4)] assms(1) show ?thesis by simp
qed

lemma findSetLeaves_originalFoo:
  "findSetLeaves swapped_env originalFoo [IgnoreAdditions (Some ())] =
      Inr [(\<lparr>gNMIPaths = Some [namedPath ''a'']\<rparr>, 1),
           (\<lparr>gNMIPaths = Some [namedPath ''c'']\<rparr>, 3)]"
  by (simp add: findSetLeaves_def findSetIterFunc_def declaredPaths_def
      singlePath_def nodeValuePath_def parentAnnotation_def nodeRootPath_def
      schemaPathTogNMIPath_def swapped_env_def rootLeaf_def leafField_def leafValue_def
      pathNames_def originalFoo_def namedPath_def Let_def)

lemma Diff_originalFoo_itself:
  "Diff swapped_env originalFoo originalFoo [IgnoreAdditions (Some ())]
     = Inr \<lparr>Prefix = None, Update = [], Delete = [], Atomic = False\<rparr>"
  unfolding Diff_def findSetLeaves_originalFoo
  by (simp add: swapped_env_def toStringPathMap_def rangeBy_def swapRank_def
      pathNames_def namedPath_def appendUpdate_def)

theorem Diff_same_witness:
  "Diff swapped_env originalFoo originalFoo [IgnoreAdditions (Some ())]
     = Inr \<lparr>Prefix = None, Update = [], Delete = [], Atomic = False\<rparr>
   \<and> findSetLeaves swapped_env originalFoo [IgnoreAdditions (Some ())] =
      Inr [(\<lparr>gNMIPaths = Some [namedPath ''a'']\<rparr>, 1),
           (\<lparr>gNMIPaths = Some [namedPath ''c'']\<rparr>, 3)]
   \<and> DeepEqual swapped_env 1 1 \<and> DeepEqual swapped_env 3 3
   \<and> noSharedPath swapped_env
        [(\<lparr>gNMIPaths = Some [namedPath ''a'']\<rparr>, 1), (\<lparr>gNMIPaths = Some [namedPath ''c'']\<rparr>, 3)]
   \<and> Update (\<lparr>Prefix = None, Update = [], Delete = [], Atomic = False\<rparr> :: int Notification) = []
   \<and> Delete (\<lparr>Prefix = None, Update = [], Delete = [], Atomic = False\<rparr> :: int Notification) = []"
proof -
  have eq: "\<forall>(vp, v)\<in>set [(\<lparr>gNMIPaths = Some [namedPath ''a'']\<rparr>, 1::int),
                         (\<lparr>gNMIPaths = Some [namedPath ''c'']\<rparr>, 3)]. DeepEqual swapped_env v v"
    by (simp add: swapped_env_def)
  have ns: "noSharedPath swapped_env
        [(\<lparr>gNMIPaths = Some [namedPath ''a'']\<rparr>, 1::int), (\<lparr>gNMIPaths = Some [namedPath ''c'']\<rparr>, 3)]"
    by (simp add: noSharedPath_def leafStrings_def swapped_env_def pathNames_def namedPath_def
        less_Suc_eq)
  from Diff_same [OF Diff_originalFoo_itself findSetLeaves_originalFoo eq ns]
    Diff_originalFoo_itself findSetLeaves_originalFoo eq ns
  show ?thesis by simp
qed

section \<open>Properties of the mutation functions\<close>


lemma replacePaths_append:
  "replacePaths env schema goStruct prefix (us @ vs) psp ief t =
     (case replacePaths env schema goStruct prefix us psp ief t of
        (Some err, t') \<Rightarrow> (Some err, t')
      | (None, t') \<Rightarrow> replacePaths env schema goStruct prefix vs psp ief t')"
proof (induction us arbitrary: t)
  case Nil
  then show ?case by simp
next
  case (Cons u us)
  show ?case
  proof (cases "joinPrefixToUpdate env prefix u")
    case (Inl err)
    then show ?thesis by (simp add: Let_def)
  next
    case (Inr u')
    obtain e t' where
      d: "DeleteNode env schema goStruct (Path u') (if psp then [PreferShadowPathOpt] else []) t = (e, t')"
      by (cases "DeleteNode env schema goStruct (Path u') (if psp then [PreferShadowPathOpt] else []) t")
    show ?thesis
    proof (cases e)
      case (Some err)
      with Inr d show ?thesis by (simp add: Let_def)
    next
      case None
      obtain e' t'' where s: "setNode env schema goStruct u' psp ief t' = (e', t'')"
        by (cases "setNode env schema goStruct u' psp ief t'")
      with Inr d None Cons.IH [of t''] show ?thesis
        by (cases e') (simp_all add: Let_def)
    qed
  qed
qed

lemma updatePaths_append:
  "updatePaths env schema goStruct prefix (us @ vs) psp ief t =
     (case updatePaths env schema goStruct prefix us psp ief t of
        (Some err, t') \<Rightarrow> (Some err, t')
      | (None, t') \<Rightarrow> updatePaths env schema goStruct prefix vs psp ief t')"
proof (induction us arbitrary: t)
  case Nil
  then show ?case by simp
next
  case (Cons u us)
  show ?case
  proof (cases "joinPrefixToUpdate env prefix u")
    case (Inl err)
    then show ?thesis by simp
  next
    case (Inr u')
    obtain e' t' where s: "setNode env schema goStruct u' psp ief t = (e', t')"
      by (cases "setNode env schema goStruct u' psp ief t")
    with Inr Cons.IH [of t'] show ?thesis
      by (cases e') simp_all
  qed
qed


text \<open>
  Claim C10. A nil request returns no error and leaves the tree as it is, for every schema,
  every tree and every option.
\<close>

theorem UnmarshalSetRequest_nil:
  "UnmarshalSetRequest env schema None opts t = (None, t)"
  by (simp add: UnmarshalSetRequest_def)


text \<open>
  What the tree held at the address before the replace reaches the result through the
  delete only: two trees that the delete makes equal are replaced into the same tree.
\<close>

lemma replacePaths_after_delete:
  assumes "joinPrefixToUpdate env prefix u = Inr u'"
    and "DeleteNode env schema goStruct (Path u') (if psp then [PreferShadowPathOpt] else []) t
       = DeleteNode env schema goStruct (Path u') (if psp then [PreferShadowPathOpt] else []) t'"
  shows "replacePaths env schema goStruct prefix [u] psp ief t
       = replacePaths env schema goStruct prefix [u] psp ief t'"
  using assms by (simp add: Let_def)


text \<open>
  In the instance of the node operations, where a delete removes every leaf under the
  address, no leaf that stood under the address before a replace is left after it: the only
  leaf under the address is the one that the replace has set.
\<close>

lemma set_update_subset: "set (AList.update k v al) \<subseteq> insert (k, v) (set al)"
  by (induction al) auto

lemma replacePaths_leaves_no_residual:
  assumes "replacePaths leaves_env schema node None [u] psp ief t = (None, t')"
    and "(a, v) \<in> set t'" and "under (node @ names (Path u)) a"
  shows "a = node @ names (Path u) \<and> v = Val u"
proof -
  let ?k = "node @ names (Path u)"
  from assms(1) have "t' = AList.update ?k (Val u) (filter (\<lambda>(a, v). \<not> under ?k a) t)"
    by (auto simp: joinPrefixToUpdate_def setNode_def leaves_env_def Let_def
        split: if_splits)
  with assms(2) set_update_subset [of ?k "Val u" "filter (\<lambda>(a, v). \<not> under ?k a) t"]
  have "(a, v) = (?k, Val u) \<or> (a, v) \<in> set (filter (\<lambda>(a, v). \<not> under ?k a) t)"
    by auto
  with assms(3) show ?thesis by auto
qed



text \<open>
  The same holds for the later phases of a request: a replace or an update that fails ends
  the request with its error and with the tree as the operations before it and the failing
  one have left it.
\<close>

lemma replace_failure_stops_request:
  assumes "addressSubject env schema (reqPrefix r) (hasPreferShadowPath env opts) t
        = ((node, nodeName, prefix), t0)"
    and "deletePaths env (SchemaTree schema nodeName) node prefix (reqDelete r)
           (hasPreferShadowPath env opts) t0 = (None, t1)"
    and "reqReplace r = us @ u # vs"
    and "replacePaths env (SchemaTree schema nodeName) node prefix us
           (hasPreferShadowPath env opts) (hasIgnoreExtraFields env opts) t1 = (None, t2)"
    and "replacePaths env (SchemaTree schema nodeName) node prefix [u]
           (hasPreferShadowPath env opts) (hasIgnoreExtraFields env opts) t2 = (Some err, t3)"
  shows "UnmarshalSetRequest env schema (Some r) opts t = (Some err, t3)"
proof -
  have "replacePaths env (SchemaTree schema nodeName) node prefix ([u] @ vs)
          (hasPreferShadowPath env opts) (hasIgnoreExtraFields env opts) t2 = (Some err, t3)"
    using assms(5) by (simp only: replacePaths_append) simp
  then have "replacePaths env (SchemaTree schema nodeName) node prefix (us @ u # vs)
          (hasPreferShadowPath env opts) (hasIgnoreExtraFields env opts) t1 = (Some err, t3)"
    using assms(4) by (simp add: replacePaths_append)
  with assms(1,2,3) show ?thesis
    by (simp add: UnmarshalSetRequest_def Let_def)
qed

lemma update_failure_stops_request:
  assumes "addressSubject env schema (reqPrefix r) (hasPreferShadowPath env opts) t
        = ((node, nodeName, prefix), t0)"
    and "deletePaths env (SchemaTree schema nodeName) node prefix (reqDelete r)
           (hasPreferShadowPath env opts) t0 = (None, t1)"
    and "replacePaths env (SchemaTree schema nodeName) node prefix (reqReplace r)
           (hasPreferShadowPath env opts) (hasIgnoreExtraFields env opts) t1 = (None, t2)"
    and "reqUpdate r = us @ u # vs"
    and "updatePaths env (SchemaTree schema nodeName) node prefix us
           (hasPreferShadowPath env opts) (hasIgnoreExtraFields env opts) t2 = (None, t3)"
    and "updatePaths env (SchemaTree schema nodeName) node prefix [u]
           (hasPreferShadowPath env opts) (hasIgnoreExtraFields env opts) t3 = (Some err, t4)"
  shows "UnmarshalSetRequest env schema (Some r) opts t = (Some err, t4)"
proof -
  have "updatePaths env (SchemaTree schema nodeName) node prefix ([u] @ vs)
          (hasPreferShadowPath env opts) (hasIgnoreExtraFields env opts) t3 = (Some err, t4)"
    using assms(6) by (simp only: updatePaths_append) simp
  then have "updatePaths env (SchemaTree schema nodeName) node prefix (us @ u # vs)
          (hasPreferShadowPath env opts) (hasIgnoreExtraFields env opts) t2 = (Some err, t4)"
    using assms(5) by (simp add: updatePaths_append)
  with assms(1,2,3,4) show ?thesis
    by (simp add: UnmarshalSetRequest_def Let_def)
qed



end
